theory Spec2Isabelle
  imports Complex_Main "HOL-Library.AList"
begin

section \<open>Python strings\<close>

text \<open>
  A Python \<open>str\<close> is modelled as a \<open>string\<close> whose characters are the code points below
  256 (Latin-1), so that \<open>len\<close> is \<open>length\<close>.  \<open>str.lower\<close> maps \<open>A..Z\<close> and the
  upper-case Latin-1 letters (192..222 except the multiplication sign 215) to the code
  point 32 above, and leaves every other character alone.  Bit 5 is clear in every code
  point of these two ranges, so adding 32 is setting bit 5.
\<close>

definition lower_char :: "char \<Rightarrow> char" where
  "lower_char c =
     (let n = (of_char c :: nat)
      in if (65 \<le> n \<and> n \<le> 90) \<or> (192 \<le> n \<and> n \<le> 222 \<and> n \<noteq> 215)
         then Char (digit0 c) (digit1 c) (digit2 c) (digit3 c) (digit4 c) True (digit6 c) (digit7 c)
         else c)"

definition lower :: "string \<Rightarrow> string" where
  "lower s = map lower_char s"

text \<open>
  Text that can leave the Latin-1 range is a list of code points; \<open>encode\<close> embeds a
  modelled string.  \<open>str.upper\<close> maps \<open>a..z\<close> and the lower-case Latin-1 letters (224..254
  except the division sign 247) to the code point 32 below, the sharp s (223) to
  \<open>SS\<close>, the micro sign (181) to U+039C and y with diaeresis (255) to U+0178; every
  other code point below 256 stays.
\<close>

type_synonym unicode = "nat list"

definition encode :: "string \<Rightarrow> unicode" where
  "encode s = map of_char s"

definition upper_char :: "char \<Rightarrow> unicode" where
  "upper_char c =
     (let n = (of_char c :: nat)
      in if (97 \<le> n \<and> n \<le> 122) \<or> (224 \<le> n \<and> n \<le> 254 \<and> n \<noteq> 247) then [n - 32]
         else if n = 223 then [83, 83]
         else if n = 181 then [924]
         else if n = 255 then [376]
         else [n])"

definition upper :: "string \<Rightarrow> unicode" where
  "upper s = concat (map upper_char s)"

text \<open>\<open>text.startswith(kw)\<close> and the substring test \<open>kw in text\<close>.\<close>

fun starts_with :: "'a list \<Rightarrow> 'a list \<Rightarrow> bool" where
  "starts_with [] text = True"
| "starts_with (k # ks) [] = False"
| "starts_with (k # ks) (c # cs) = (k = c \<and> starts_with ks cs)"

fun str_in :: "'a list \<Rightarrow> 'a list \<Rightarrow> bool" where
  "str_in kw [] = (kw = [])"
| "str_in kw (c # cs) = (starts_with kw (c # cs) \<or> str_in kw cs)"

text \<open>\<open>text.count(ch)\<close> for a one-character argument.\<close>

definition str_count :: "string \<Rightarrow> char \<Rightarrow> nat" where
  "str_count text ch = length (filter (\<lambda>c. c = ch) text)"

section \<open>Python floats\<close>

text \<open>
  A Python float is an IEEE 754 binary64 number; the model carries the real number
  that the double denotes and rounds the exact result of every operation to the nearest
  double, ties to the even significand.  \<open>binade x\<close> is the exponent \<open>e\<close> with
  \<open>2^e \<le> |x| < 2^(e+1)\<close>; below \<open>2^-1022\<close> the spacing of the doubles stays \<open>2^-1074\<close>.
  Overflow to infinity is not modelled: no value of the program comes near \<open>2^1024\<close>.
\<close>

fun ilog2 :: "nat \<Rightarrow> nat" where
  "ilog2 n = (if n < 2 then 0 else Suc (ilog2 (n div 2)))"

declare ilog2.simps [simp del]

definition binade :: "real \<Rightarrow> int" where
  "binade x =
     (let a = \<bar>x\<bar>
      in if 1 \<le> a then int (ilog2 (nat \<lfloor>a\<rfloor>))
         else (let m = nat \<lceil>1 / a\<rceil> in if m \<le> 1 then 0 else - int (Suc (ilog2 (m - 1)))))"

definition round_half_even :: "real \<Rightarrow> int" where
  "round_half_even x =
     (let f = \<lfloor>x\<rfloor>; d = x - of_int f
      in if d < 1 / 2 then f else if 1 / 2 < d then f + 1 else if even f then f else f + 1)"

definition double_round :: "real \<Rightarrow> real" where
  "double_round x =
     (if x = 0 then 0
      else (let u = 2 powi (max (binade x) (- 1022) - 52)
            in of_int (round_half_even (x / u)) * u))"

text \<open>Addition and multiplication of doubles, the double that a decimal literal
  denotes, and the conversion of an \<open>int\<close>.\<close>

definition dadd :: "real \<Rightarrow> real \<Rightarrow> real" where
  "dadd x y = double_round (x + y)"

definition dmul :: "real \<Rightarrow> real \<Rightarrow> real" where
  "dmul x y = double_round (x * y)"

definition float_literal :: "real \<Rightarrow> real" where
  "float_literal q = double_round q"

definition float_of_int :: "int \<Rightarrow> real" where
  "float_of_int i = double_round (of_int i)"

section \<open>InterestDetector\<close>

definition interest_keywords :: "string list" where
  "interest_keywords =
     [''connection'', ''pattern'', ''similar'', ''like'', ''reminds me'',
      ''what if'', ''perhaps'', ''maybe'', ''could be'', ''might'',
      ''interesting'', ''fascinating'', ''beautiful'', ''elegant'',
      ''paradox'', ''contradiction'', ''unexpected'', ''surprising'',
      ''discovery'', ''insight'', ''realization'', ''understanding'']"

definition gold_strike_indicators :: "string list" where
  "gold_strike_indicators =
     [''breakthrough'', ''eureka'', ''suddenly clear'', ''now I see'',
      ''this explains'', ''the key is'', ''fundamental'', ''profound'',
      ''revolutionary'', ''paradigm'', ''transforms everything'']"

text \<open>
  The score is a Python float.  Each \<open>for\<close> loop over a keyword list is a \<open>fold\<close> over
  that list with the running score as accumulator; every \<open>+=\<close> is a double addition and
  every count is converted to a double before it is multiplied.
\<close>

definition calculate_interest_score :: "string \<Rightarrow> real" where
  "calculate_interest_score thought =
     (let score0 = 0;
          thought_lower = lower thought;
          score1 = fold (\<lambda>keyword score.
                      if str_in keyword thought_lower then dadd score (float_literal (1 / 10))
                      else score)
                     interest_keywords score0;
          score2 = fold (\<lambda>indicator score.
                      if str_in indicator thought_lower then dadd score (float_literal (1 / 2))
                      else score)
                     gold_strike_indicators score1;
          score3 = (if length thought > 100 then dadd score2 (float_literal (1 / 10)) else score2);
          score4 = dadd score3
                     (dmul (float_of_int (int (str_count thought CHR ''?'')))
                           (float_literal (1 / 20)));
          score5 = dadd score4
                     (dmul (float_of_int (int (str_count thought CHR ''!'')))
                           (float_literal (1 / 10)))
      in min score5 1.0)"

definition is_gold_strike :: "string \<Rightarrow> real \<Rightarrow> bool" where
  "is_gold_strike thought score =
     (score > 0.6 \<or> list_ex (\<lambda>indicator. str_in indicator (lower thought)) gold_strike_indicators)"

text \<open>
  The additive model in the words of the specification: every occurrence of a keyword
  counts, matched without regard to case.  \<open>occurrences kw t\<close> is the number of
  positions of \<open>t\<close> at which \<open>kw\<close> starts.
\<close>

fun occurrences :: "'a list \<Rightarrow> 'a list \<Rightarrow> nat" where
  "occurrences kw [] = 0"
| "occurrences kw (c # cs) = (if starts_with kw (c # cs) then 1 else 0) + occurrences kw cs"

definition spec_interest_score :: "string \<Rightarrow> real" where
  "spec_interest_score thought =
     (let low = lower thought
      in min 1
           (0.1 * real (sum_list (map (\<lambda>k. occurrences (lower k) low) interest_keywords))
            + 0.5 * real (sum_list (map (\<lambda>k. occurrences (lower k) low) gold_strike_indicators))
            + (if length thought > 100 then 0.1 else 0)
            + 0.05 * real (str_count thought CHR ''?'')
            + 0.1 * real (str_count thought CHR ''!'')))"

text \<open>
  The additive model with every keyword counted once however often it occurs:
  \<open>keyword_present kw t\<close> is the case-insensitive substring match, and the bonuses are
  summed in double arithmetic in the order generic keywords, gold-strike indicators,
  length, question marks, exclamation marks.
\<close>

definition keyword_present :: "string \<Rightarrow> string \<Rightarrow> bool" where
  "keyword_present kw thought = str_in (lower kw) (lower thought)"

text \<open>The sum of a list of doubles, accumulated from the left in double arithmetic.\<close>

definition double_total :: "real list \<Rightarrow> real" where
  "double_total xs = foldl dadd 0 xs"

definition presence_interest_score :: "string \<Rightarrow> real" where
  "presence_interest_score thought =
     (let low = lower thought
      in min (double_total
                (replicate (length (filter (\<lambda>k. str_in (lower k) low) interest_keywords))
                   (float_literal (1 / 10))
                 @ replicate (length (filter (\<lambda>k. str_in (lower k) low) gold_strike_indicators))
                     (float_literal (1 / 2))
                 @ (if length thought > 100 then [float_literal (1 / 10)] else [])
                 @ [dmul (float_of_int (int (str_count thought CHR ''?''))) (float_literal (1 / 20)),
                    dmul (float_of_int (int (str_count thought CHR ''!''))) (float_literal (1 / 10))]))
             1)"

section \<open>Python lists, exceptions and the environment\<close>

text \<open>
  The exceptions that can reach the modelled code.  \<open>except Exception\<close> catches every
  one of them except \<open>KeyboardInterrupt\<close> and \<open>SystemExit\<close>, which derive from
  \<open>BaseException\<close> only.
\<close>

datatype exc =
    ConnectionError | Timeout | JSONDecodeError | IndexError | AttributeError
  | TypeError | KeyboardInterrupt | SystemExit

fun is_Exception :: "exc \<Rightarrow> bool" where
  "is_Exception KeyboardInterrupt = False"
| "is_Exception SystemExit = False"
| "is_Exception e = True"

text \<open>\<open>random.choice(xs)\<close>: the random source is a natural number drawn by the
  environment; an empty sequence raises \<open>IndexError\<close>.\<close>

definition random_choice :: "nat \<Rightarrow> 'a list \<Rightarrow> exc + 'a" where
  "random_choice r xs = (if xs = [] then Inl IndexError else Inr (xs ! (r mod length xs)))"

text \<open>The slice \<open>xs[start:]\<close>: a negative start counts from the end, and both ends are
  clamped to the list.\<close>

definition slice_from :: "int \<Rightarrow> 'a list \<Rightarrow> 'a list" where
  "slice_from start xs =
     (let n = int (length xs);
          s = (if start < 0 then max (n + start) 0 else min start n)
      in drop (nat s) xs)"

text \<open>\<open>str.strip()\<close>: the white space among the code points below 256.\<close>

definition is_space :: "char \<Rightarrow> bool" where
  "is_space c = ((of_char c :: nat) \<in> set [9, 10, 11, 12, 13, 28, 29, 30, 31, 32, 133, 160])"

definition strip :: "string \<Rightarrow> string" where
  "strip s = rev (dropWhile is_space (rev (dropWhile is_space s)))"

text \<open>\<open>sep.join(xs)\<close>.\<close>

fun join :: "'a list \<Rightarrow> 'a list list \<Rightarrow> 'a list" where
  "join sep [] = []"
| "join sep [x] = x"
| "join sep (x # y # ys) = x @ sep @ join sep (y # ys)"

text \<open>\<open>str(i)\<close> for an integer, as an f-string renders it.\<close>

definition digit_char :: "nat \<Rightarrow> char" where
  "digit_char d = ''0123456789'' ! d"

fun str_nat :: "nat \<Rightarrow> string" where
  "str_nat n = (if n < 10 then [digit_char n] else str_nat (n div 10) @ [digit_char (n mod 10)])"

declare str_nat.simps [simp del]

definition str_int :: "int \<Rightarrow> string" where
  "str_int i = (if i < 0 then CHR ''-'' # str_nat (nat (- i)) else str_nat (nat i))"

section \<open>Thought and MemorySystem\<close>

text \<open>
  A \<open>datetime\<close> is an integer count of clock ticks.  The field \<open>id\<close> is named
  \<open>thought_id\<close>.
\<close>

record Thought =
  thought_id :: string
  timestamp :: int
  content :: string
  thought_type :: string
  parent_id :: "string option"
  interest_score :: real
  tags :: "string list"

record golden_row =
  golden_id :: string
  golden_timestamp :: int
  golden_content :: string
  golden_interest_score :: real
  discovery_context :: string

text \<open>
  The two SQLite tables are lists of rows in insertion order; a row of \<open>thoughts\<close> holds
  the seven column values of a \<open>Thought\<close>.  \<open>INSERT OR REPLACE\<close> on a table whose primary
  key is \<open>id\<close> deletes the rows with the new row's key and then inserts the new row.
\<close>

definition insert_or_replace :: "('r \<Rightarrow> string) \<Rightarrow> 'r \<Rightarrow> 'r list \<Rightarrow> 'r list" where
  "insert_or_replace key row rows = filter (\<lambda>r. key r \<noteq> key row) rows @ [row]"

record MemorySystem =
  short_term_memory :: "Thought list"
  max_short_term :: nat
  thoughts_table :: "Thought list"
  golden_thoughts_table :: "golden_row list"

text \<open>\<open>__init__\<close>: an empty buffer of capacity 20 over the tables the database file
  already holds.\<close>

definition MemorySystem_init :: "Thought list \<Rightarrow> golden_row list \<Rightarrow> MemorySystem" where
  "MemorySystem_init db_thoughts db_golden =
     \<lparr>short_term_memory = [], max_short_term = 20,
      thoughts_table = db_thoughts, golden_thoughts_table = db_golden\<rparr>"

definition add_thought :: "MemorySystem \<Rightarrow> Thought \<Rightarrow> MemorySystem" where
  "add_thought ms thought =
     (let appended = short_term_memory ms @ [thought];
          stm = (if length appended > max_short_term ms then tl appended else appended)
      in ms\<lparr>short_term_memory := stm,
            thoughts_table := insert_or_replace thought_id thought (thoughts_table ms)\<rparr>)"

definition add_golden_thought :: "MemorySystem \<Rightarrow> Thought \<Rightarrow> string \<Rightarrow> MemorySystem" where
  "add_golden_thought ms thought context =
     ms\<lparr>golden_thoughts_table :=
          insert_or_replace golden_id
            \<lparr>golden_id = thought_id thought, golden_timestamp = timestamp thought,
             golden_content = content thought,
             golden_interest_score = interest_score thought,
             discovery_context = context\<rparr>
            (golden_thoughts_table ms)\<rparr>"

definition get_recent_thoughts :: "MemorySystem \<Rightarrow> int \<Rightarrow> Thought list" where
  "get_recent_thoughts ms limit = slice_from (- limit) (short_term_memory ms)"

text \<open>A numbered record, for exercising the memory.\<close>

definition numbered_thought :: "nat \<Rightarrow> Thought" where
  "numbered_thought i =
     \<lparr>thought_id = ''thought_'' @ str_nat i, timestamp = int i, content = ''note '' @ str_nat i,
      thought_type = ''reasoning'', parent_id = None, interest_score = 0, tags = []\<rparr>"

text \<open>A sequence of calls of \<open>add_thought\<close>.\<close>

definition add_thoughts :: "MemorySystem \<Rightarrow> Thought list \<Rightarrow> MemorySystem" where
  "add_thoughts ms ts = fold (\<lambda>t m. add_thought m t) ts ms"

section \<open>The inference backend\<close>

text \<open>
  A call of \<open>requests.post\<close> either raises or returns a response.  Of the request the
  model keeps the URL, the model name and the prompt (a sequence of code points); the
  sampling options do not influence the caller.  Of a response it keeps the status code and \<open>decoded\<close>: what the
  caller's decoding expression (\<open>response.json()\<close> followed by the chain of \<open>get\<close> and
  index operations, before \<open>strip\<close>) evaluates to, which is the text or the exception
  that the expression raises.  Calls to \<open>logging\<close>, \<open>print\<close> and \<open>time.sleep\<close> are not
  modelled.
\<close>

record request =
  url :: string
  request_model :: string
  prompt :: unicode

record http_response =
  status_code :: int
  decoded :: "exc + string"

type_synonym backend = "request \<Rightarrow> exc + http_response"

text \<open>
  What the environment supplies during one call or one loop iteration: two random
  draws, the backend's behaviour, \<open>int(time.time() * 1000)\<close>, \<open>datetime.now()\<close>, whether
  another thread has cleared the running flag, and the text that
  \<open>ThoughtSeeder.generate_seed\<close> returns.
\<close>

record env =
  rnd :: nat
  rnd2 :: nat
  backend :: backend
  clock_ms :: int
  now :: int
  stop_signal :: bool
  seed_text :: string

text \<open>
  A backend call fails when it raises an exception that derives from \<open>Exception\<close> (a
  connection failure, a timeout) or returns a response whose status is not 200.
\<close>

fun failed :: "exc + http_response \<Rightarrow> bool" where
  "failed (Inl e) = is_Exception e"
| "failed (Inr response) = (status_code response \<noteq> 200)"

section \<open>ReasoningEngine\<close>

record ReasoningEngine =
  ollama_url :: string
  model :: string

definition reasoning_modes :: "string list" where
  "reasoning_modes =
     [''free_association'', ''logical_deduction'', ''creative_what_if'',
      ''pattern_recognition'', ''analogical_reasoning'']"

definition newline :: char where
  "newline = CHR 0x0A"

definition build_prompt :: "unicode \<Rightarrow> string \<Rightarrow> unicode" where
  "build_prompt context mode =
     (let base_context =
            (if context \<noteq> []
             then encode ''Previous thoughts:'' @ encode [newline] @ context
                  @ encode [newline, newline]
             else [])
      in if mode = ''free_association''
           then base_context @ encode ''Let your mind wander freely. What comes to mind next?''
         else if mode = ''logical_deduction''
           then base_context @ encode ''Following logical steps, what conclusion emerges?''
         else if mode = ''creative_what_if''
           then base_context
              @ encode ''What if we imagined something completely different? What if...''
         else if mode = ''pattern_recognition''
           then base_context
              @ encode ''Looking at these ideas, what patterns or connections do you notice?''
         else if mode = ''analogical_reasoning''
           then base_context
              @ encode ''How might this be similar to something else entirely? What analogy comes to mind?''
         else base_context @ encode ''What thought arises naturally?'')"

definition thought_filler_status :: string where
  "thought_filler_status = ''I notice something interesting about the nature of thought itself...''"

definition thought_filler_except :: string where
  "thought_filler_except = ''In this moment of silence, new possibilities emerge...''"

text \<open>The body of the \<open>try\<close> block of \<open>generate_thought\<close>.\<close>

definition generate_thought_try :: "ReasoningEngine \<Rightarrow> backend \<Rightarrow> unicode \<Rightarrow> exc + string" where
  "generate_thought_try engine post prompt_text =
     (case post \<lparr>url = ollama_url engine @ ''/api/generate'', request_model = model engine,
                 prompt = prompt_text\<rparr> of
        Inl e \<Rightarrow> Inl e
      | Inr response \<Rightarrow>
          if status_code response = 200
          then (case decoded response of Inl e \<Rightarrow> Inl e | Inr text \<Rightarrow> Inr (strip text))
          else Inr thought_filler_status)"

definition generate_thought ::
    "ReasoningEngine \<Rightarrow> backend \<Rightarrow> nat \<Rightarrow> Thought list \<Rightarrow> string option \<Rightarrow> exc + string" where
  "generate_thought engine post r context mode =
     (case (case mode of None \<Rightarrow> random_choice r reasoning_modes | Some m \<Rightarrow> Inr m) of
        Inl e \<Rightarrow> Inl e
      | Inr m \<Rightarrow>
          (let context_str =
                 (if context \<noteq> []
                  then join (encode [newline])
                         (map (\<lambda>t. encode ''['' @ upper (thought_type t) @ encode ''] ''
                                   @ encode (content t))
                              (slice_from (- 5) context))
                  else []);
               prompt_text = build_prompt context_str m
           in case generate_thought_try engine post prompt_text of
                Inl e \<Rightarrow> if is_Exception e then Inr thought_filler_except else Inl e
              | Inr text \<Rightarrow> Inr text))"

section \<open>The multi-agent ConversationEngine\<close>

text \<open>The fields \<open>id\<close>, \<open>timestamp\<close>, \<open>content\<close> and \<open>interest_score\<close> of \<open>AgentMessage\<close>
  carry the prefix \<open>msg_\<close>; \<open>Agent.id\<close> is \<open>a_id\<close> and \<open>Agent.model\<close> is \<open>agent_model\<close>.\<close>

record AgentMessage =
  msg_id :: string
  msg_timestamp :: int
  agent_id :: string
  msg_content :: string
  response_to :: "string option"
  conversation_id :: string
  msg_interest_score :: real

record Agent =
  a_id :: string
  name :: string
  personality_traits :: "string list"
  current_focus :: string
  agent_model :: string
  conversation_style :: string
  memory_buffer :: "AgentMessage list"

text \<open>
  \<open>agents\<close> is a Python dict, kept as an association list in insertion order;
  \<open>conversations\<close> is a dict whose order is never observed; \<open>message_queue\<close> holds the
  messages put on the unbounded queue, oldest first.
\<close>

record ConversationEngine =
  ce_ollama_url :: string
  agents :: "(string \<times> Agent) list"
  conversations :: "string \<rightharpoonup> AgentMessage list"
  message_queue :: "AgentMessage list"
  is_running :: bool

definition ConversationEngine_init :: "string \<Rightarrow> ConversationEngine" where
  "ConversationEngine_init u =
     \<lparr>ce_ollama_url = u, agents = [], conversations = Map.empty, message_queue = [],
      is_running = False\<rparr>"

definition add_agent :: "ConversationEngine \<Rightarrow> Agent \<Rightarrow> ConversationEngine" where
  "add_agent st agent = st\<lparr>agents := AList.update (a_id agent) agent (agents st)\<rparr>"

definition conversation_seeds :: "string list" where
  "conversation_seeds =
     [''I've been thinking about the nature of time...'',
      ''What if consciousness is more like water than we think?'',
      ''There's something fascinating about how patterns emerge everywhere.'',
      ''I wonder about the connection between music and mathematics.'',
      ''The way plants grow reminds me of how ideas spread.'',
      ''Have you noticed how cities breathe like living organisms?'',
      ''The space between thoughts might be where creativity lives.'',
      ''I'm curious about what makes something beautiful versus useful.'',
      ''The relationship between order and chaos keeps puzzling me.'',
      ''Sometimes I think language shapes reality more than we realize.'']"

definition generate_conversation_seed :: "nat \<Rightarrow> exc + string" where
  "generate_conversation_seed r = random_choice r conversation_seeds"

text \<open>
  \<open>start_conversation\<close> returns the state it leaves behind together with its result:
  the conversation id, or the exception it raises.  The empty conversation is stored
  before the first speaker is drawn, so it stays when the draw raises.
\<close>

definition start_conversation ::
    "env \<Rightarrow> ConversationEngine \<Rightarrow> string \<Rightarrow> string option \<Rightarrow> ConversationEngine \<times> (exc + string)" where
  "start_conversation e st cid initial_topic =
     (if cid \<in> dom (conversations st) then (st, Inr cid)
      else
        (let st1 = st\<lparr>conversations := (conversations st)(cid \<mapsto> [])\<rparr>
         in case (case initial_topic of
                    None \<Rightarrow> generate_conversation_seed (rnd e)
                  | Some topic \<Rightarrow> if topic \<noteq> [] then Inr topic
                                  else generate_conversation_seed (rnd e)) of
              Inl x \<Rightarrow> (st1, Inl x)
            | Inr seed_message \<Rightarrow>
                (case random_choice (rnd2 e) (map snd (agents st1)) of
                   Inl x \<Rightarrow> (st1, Inl x)
                 | Inr first_agent \<Rightarrow>
                     (let initial_message =
                            \<lparr>msg_id = ''msg_'' @ str_int (clock_ms e), msg_timestamp = now e,
                             agent_id = a_id first_agent, msg_content = seed_message,
                             response_to = None, conversation_id = cid,
                             msg_interest_score = 0\<rparr>
                      in (st1\<lparr>conversations := (conversations st1)(cid \<mapsto> [initial_message]),
                              message_queue := message_queue st1 @ [initial_message]\<rparr>,
                          Inr cid)))))"

definition fallbacks :: "string list" where
  "fallbacks =
     [''That's an interesting perspective...'',
      ''I'm still processing that thought.'',
      ''Something about this reminds me of...'',
      ''Let me think about this differently.'',
      ''What if we considered...'',
      ''That opens up new questions for me.'']"

definition fallback_response :: "nat \<Rightarrow> Agent \<Rightarrow> exc + string" where
  "fallback_response r agent = random_choice r fallbacks"

definition build_agent_prompt :: "Agent \<Rightarrow> string \<Rightarrow> string" where
  "build_agent_prompt agent context =
     (let personality_desc = ''Agent with traits: '' @ join '', '' (personality_traits agent);
          style_desc = ''Communication style: '' @ conversation_style agent;
          focus_desc = ''Current focus: '' @ current_focus agent
      in ''Recent conversation:'' @ [newline] @ context @ [newline, newline]
         @ personality_desc @ [newline] @ style_desc @ [newline] @ focus_desc
         @ [newline, newline] @ ''Response (continue the conversation naturally):'')"

text \<open>The body of the \<open>try\<close> block of \<open>generate_response\<close>.\<close>

definition generate_response_try ::
    "ConversationEngine \<Rightarrow> backend \<Rightarrow> nat \<Rightarrow> Agent \<Rightarrow> string \<Rightarrow> exc + string" where
  "generate_response_try st post r agent prompt_text =
     (case post \<lparr>url = ce_ollama_url st @ ''/chat/completions'', request_model = agent_model agent,
                 prompt = encode prompt_text\<rparr> of
        Inl e \<Rightarrow> Inl e
      | Inr response \<Rightarrow>
          if status_code response = 200
          then (case decoded response of Inl e \<Rightarrow> Inl e | Inr text \<Rightarrow> Inr (strip text))
          else fallback_response r agent)"

text \<open>
  The constructor that \<open>@dataclass\<close> generates for \<open>Agent\<close>: the fields \<open>id\<close>, \<open>name\<close>,
  \<open>personality_traits\<close>, \<open>current_focus\<close>, \<open>model\<close> and \<open>conversation_style\<close> are
  required, \<open>memory_buffer\<close> defaults to an empty list.  A call that leaves
  \<open>conversation_style\<close> out raises \<open>TypeError\<close>.
\<close>

definition Agent_init ::
    "string \<Rightarrow> string \<Rightarrow> string list \<Rightarrow> string \<Rightarrow> string \<Rightarrow> string option \<Rightarrow> exc + Agent" where
  "Agent_init i n traits focus m style =
     (case style of
        None \<Rightarrow> Inl TypeError
      | Some s \<Rightarrow>
          Inr \<lparr>a_id = i, name = n, personality_traits = traits, current_focus = focus,
               agent_model = m, conversation_style = s, memory_buffer = []\<rparr>)"

text \<open>
  The loop that renders the recent messages.  In
  \<open>self.agents.get(msg.agent_id, Agent("unknown", "Unknown", [], "", ""))\<close> the default
  is built before the lookup, in every iteration, with five positional arguments.
\<close>

fun render_history :: "ConversationEngine \<Rightarrow> AgentMessage list \<Rightarrow> string \<Rightarrow> exc + string" where
  "render_history st [] context = Inr context"
| "render_history st (msg # msgs) context =
     (case Agent_init ''unknown'' ''Unknown'' [] [] [] None of
        Inl e \<Rightarrow> Inl e
      | Inr unknown \<Rightarrow>
          (let speaker = name (case map_of (agents st) (agent_id msg) of
                                 Some a \<Rightarrow> a | None \<Rightarrow> unknown)
           in render_history st msgs
                (context @ speaker @ '': '' @ msg_content msg @ [newline])))"

text \<open>The rendering runs before the \<open>try\<close> block, so what it raises leaves
  \<open>generate_response\<close>.\<close>

definition generate_response ::
    "ConversationEngine \<Rightarrow> backend \<Rightarrow> nat \<Rightarrow> Agent \<Rightarrow> AgentMessage list \<Rightarrow> exc + string" where
  "generate_response st post r agent conversation_history =
     (let recent_messages = slice_from (- 5) conversation_history
      in case render_history st recent_messages [] of
           Inl e \<Rightarrow> Inl e
         | Inr context \<Rightarrow>
             (let prompt_text = build_agent_prompt agent context
              in case generate_response_try st post r agent prompt_text of
                   Inl e \<Rightarrow> if is_Exception e then fallback_response r agent else Inl e
                 | Inr text \<Rightarrow> Inr text))"

text \<open>
  \<open>process_conversation\<close>.  The local variable \<open>conversation\<close> is the list object
  stored under the conversation id, so it is read from the state in every iteration.
\<close>

definition conversation_of :: "ConversationEngine \<Rightarrow> string \<Rightarrow> AgentMessage list" where
  "conversation_of st cid = (case conversations st cid of Some msgs \<Rightarrow> msgs | None \<Rightarrow> [])"

definition last_speaker :: "AgentMessage list \<Rightarrow> string option" where
  "last_speaker conversation =
     (if conversation \<noteq> [] then Some (agent_id (last conversation)) else None)"

text \<open>The candidates, each with the dict key under which the agent object is stored.\<close>

definition available_agents ::
    "ConversationEngine \<Rightarrow> AgentMessage list \<Rightarrow> (string \<times> Agent) list" where
  "available_agents st conversation =
     filter (\<lambda>(k, a). Some (a_id a) \<noteq> last_speaker conversation) (agents st)"

definition remember :: "Agent \<Rightarrow> AgentMessage \<Rightarrow> Agent" where
  "remember agent msg =
     (let appended = memory_buffer agent @ [msg]
      in agent\<lparr>memory_buffer := (if length appended > 10 then tl appended else appended)\<rparr>)"

text \<open>
  What a Python dict filled by \<open>add_agent\<close> guarantees: the keys are distinct and every
  agent is stored under its own id.
\<close>

definition agents_wf :: "ConversationEngine \<Rightarrow> bool" where
  "agents_wf st =
     (distinct (map fst (agents st)) \<and> list_all (\<lambda>(k, a). a_id a = k) (agents st))"

text \<open>The message that \<open>process_conversation\<close> builds for a response.\<close>

definition response_message ::
    "env \<Rightarrow> string \<Rightarrow> int \<Rightarrow> Agent \<Rightarrow> string \<Rightarrow> AgentMessage list \<Rightarrow> AgentMessage" where
  "response_message e cid exchanges next_agent response_content conversation =
     \<lparr>msg_id = ''msg_'' @ str_int (clock_ms e) @ ''_'' @ str_int exchanges,
      msg_timestamp = now e,
      agent_id = a_id next_agent,
      msg_content = response_content,
      response_to = (if conversation \<noteq> [] then Some (msg_id (last conversation)) else None),
      conversation_id = cid,
      msg_interest_score = 0\<rparr>"

text \<open>
  One pass through the body of the \<open>try\<close> block inside the loop: it breaks, raises, or
  ends with a new state and exchange counter.
\<close>

datatype step_result = Break | Raise exc | Next ConversationEngine int

definition process_body :: "env \<Rightarrow> string \<Rightarrow> ConversationEngine \<Rightarrow> int \<Rightarrow> step_result" where
  "process_body e cid st exchanges =
     (let conversation = conversation_of st cid;
          available = available_agents st conversation
      in if available = [] then Break
         else
           (case random_choice (rnd e) available of
              Inl x \<Rightarrow> Raise x
            | Inr (k, next_agent) \<Rightarrow>
                (case generate_response st (backend e) (rnd2 e) next_agent conversation of
                   Inl x \<Rightarrow> Raise x
                 | Inr response_content \<Rightarrow>
                     if response_content \<noteq> [] then
                       (let response_msg =
                              response_message e cid exchanges next_agent response_content
                                conversation
                        in Next (st\<lparr>conversations :=
                                       (conversations st)(cid \<mapsto> conversation @ [response_msg]),
                                     message_queue := message_queue st @ [response_msg],
                                     agents :=
                                       AList.update k (remember next_agent response_msg) (agents st)\<rparr>)
                                (exchanges + 1))
                     else Next st exchanges)))"

text \<open>
  How a call of \<open>process_conversation\<close> ends: it reaches its last line with a number of
  exchanges (the conversation is completed), it returns early because the
  conversation is unknown, or an exception that \<open>except Exception\<close> does not catch
  leaves it.
\<close>

datatype outcome = Completed int | NotFound | Propagated exc

text \<open>
  The \<open>while\<close> loop.  Each iteration that goes past the candidate test consumes one
  reading of the environment; the result is \<open>None\<close> when the readings run out before
  the loop has ended.
\<close>

fun process_loop ::
    "env list \<Rightarrow> string \<Rightarrow> int \<Rightarrow> ConversationEngine \<Rightarrow> int \<Rightarrow> (ConversationEngine \<times> outcome) option" where
  "process_loop [] cid max_exchanges st exchanges =
     (if exchanges < max_exchanges
      then (if available_agents st (conversation_of st cid) = []
            then Some (st, Completed exchanges) else None)
      else Some (st, Completed exchanges))"
| "process_loop (e # es) cid max_exchanges st exchanges =
     (if exchanges < max_exchanges
      then (case process_body e cid st exchanges of
              Break \<Rightarrow> Some (st, Completed exchanges)
            | Raise x \<Rightarrow>
                if is_Exception x then Some (st, Completed exchanges)
                else Some (st, Propagated x)
            | Next st' exchanges' \<Rightarrow> process_loop es cid max_exchanges st' exchanges')
      else Some (st, Completed exchanges))"

definition process_conversation ::
    "env list \<Rightarrow> ConversationEngine \<Rightarrow> string \<Rightarrow> int \<Rightarrow> (ConversationEngine \<times> outcome) option" where
  "process_conversation es st cid max_exchanges =
     (if cid \<notin> dom (conversations st) then Some (st, NotFound)
      else process_loop es cid max_exchanges st 0)"

text \<open>The states a \<open>ConversationEngine\<close> can be in: built by \<open>__init__\<close> and changed
  only by its methods.\<close>

inductive reachable :: "ConversationEngine \<Rightarrow> bool" where
  reach_init: "reachable (ConversationEngine_init u)"
| reach_add: "reachable st \<Longrightarrow> reachable (add_agent st agent)"
| reach_start: "reachable st \<Longrightarrow> reachable (fst (start_conversation e st cid topic))"
| reach_process:
    "reachable st \<Longrightarrow> process_conversation es st cid max_exchanges = Some (st', out)
       \<Longrightarrow> reachable st'"

text \<open>No two neighbours of a sequence are equal.\<close>

fun no_consecutive_repeat :: "'a list \<Rightarrow> bool" where
  "no_consecutive_repeat (x # y # zs) = (x \<noteq> y \<and> no_consecutive_repeat (y # zs))"
| "no_consecutive_repeat xs = True"

text \<open>The state after a response has been appended: the conversation and the queue
  receive the message, and the speaker's buffer remembers it.\<close>

definition appended_state ::
    "ConversationEngine \<Rightarrow> string \<Rightarrow> string \<Rightarrow> Agent \<Rightarrow> AgentMessage \<Rightarrow> ConversationEngine" where
  "appended_state st cid k a m =
     st\<lparr>conversations := (conversations st)(cid \<mapsto> conversation_of st cid @ [m]),
        message_queue := message_queue st @ [m],
        agents := AList.update k (remember a m) (agents st)\<rparr>"

text \<open>The invariant of the engine.\<close>

definition engine_inv :: "ConversationEngine \<Rightarrow> bool" where
  "engine_inv st \<longleftrightarrow>
     agents_wf st \<and>
     (\<forall>cid msgs. conversations st cid = Some msgs \<longrightarrow>
        (\<forall>m\<in>set msgs. agent_id m \<in> set (map fst (agents st)))
        \<and> no_consecutive_repeat (map agent_id msgs))"

section \<open>DreamingAI: the single reasoning loop\<close>

text \<open>Of the configuration the loop reads \<open>max_thoughts_per_session\<close>; the output manager
  writes to the console and to files only.\<close>

record DreamingAI =
  reasoning_engine :: ReasoningEngine
  memory :: MemorySystem
  is_dreaming :: bool
  thoughts_generated :: "Thought list"
  max_thoughts_per_session :: int

definition process_thought :: "DreamingAI \<Rightarrow> Thought \<Rightarrow> DreamingAI" where
  "process_thought st thought =
     (let scored = thought\<lparr>interest_score := calculate_interest_score (content thought)\<rparr>;
          gold = is_gold_strike (content scored) (interest_score scored);
          final = (if gold then scored\<lparr>thought_type := ''gold_strike''\<rparr> else scored);
          mem = (if gold
                 then add_golden_thought (memory st) final ''Autonomous discovery during dreaming''
                 else memory st)
      in st\<lparr>memory := add_thought mem final,
            thoughts_generated := thoughts_generated st @ [final]\<rparr>)"

text \<open>
  The \<open>while\<close> loop of \<open>_dream_loop\<close>; its result is the final state and the exception
  that leaves the loop, if any.  \<open>None\<close>: the readings ran out before the loop ended.
\<close>

fun dream_iterations ::
    "env list \<Rightarrow> DreamingAI \<Rightarrow> int \<Rightarrow> (DreamingAI \<times> exc option) option" where
  "dream_iterations [] st thought_count =
     (if is_dreaming st \<and> thought_count < max_thoughts_per_session st then None
      else Some (st, None))"
| "dream_iterations (e # es) st thought_count =
     (let st0 = (if stop_signal e then st\<lparr>is_dreaming := False\<rparr> else st)
      in if is_dreaming st0 \<and> thought_count < max_thoughts_per_session st0
         then
           (let context = get_recent_thoughts (memory st0) 10
            in case generate_thought (reasoning_engine st0) (backend e) (rnd e) context None of
                 Inl x \<Rightarrow> if is_Exception x then dream_iterations es st0 thought_count
                          else Some (st0, Some x)
               | Inr new_content \<Rightarrow>
                   if new_content \<noteq> [] then
                     (let new_thought =
                            \<lparr>thought_id = ''thought_'' @ str_int (clock_ms e) @ ''_''
                                           @ str_int thought_count,
                             timestamp = now e, content = new_content,
                             thought_type = ''reasoning'',
                             parent_id =
                               (if context \<noteq> [] then Some (thought_id (last context)) else None),
                             interest_score = 0, tags = []\<rparr>
                      in dream_iterations es (process_thought st0 new_thought) (thought_count + 1))
                   else dream_iterations es st0 thought_count)
         else Some (st0, None))"

definition dream_loop :: "env \<Rightarrow> env list \<Rightarrow> DreamingAI \<Rightarrow> (DreamingAI \<times> exc option) option" where
  "dream_loop e0 es st =
     (let seed_thought =
            \<lparr>thought_id = ''thought_'' @ str_int (clock_ms e0), timestamp = now e0,
             content = seed_text e0, thought_type = ''seed'', parent_id = None,
             interest_score = 0, tags = []\<rparr>
      in dream_iterations es (process_thought st seed_thought) 1)"

section \<open>Sample data\<close>

text \<open>Two agents, an engine that holds them, and readings of the environment in which
  every backend call times out.\<close>

definition agent_a :: Agent where
  "agent_a =
     \<lparr>a_id = ''agent_1700000000000_0'', name = ''Explorer-0_0'',
      personality_traits = [''curious'', ''bold''], current_focus = ''patterns'',
      agent_model = ''gemma2:2b'', conversation_style = ''questioning'', memory_buffer = []\<rparr>"

definition agent_b :: Agent where
  "agent_b =
     \<lparr>a_id = ''agent_1700000000000_1'', name = ''Thinker-0_1'',
      personality_traits = [''philosophical'', ''cautious'', ''logical''],
      current_focus = ''origins'', agent_model = ''qwen2.5:1.5b'',
      conversation_style = ''direct'', memory_buffer = []\<rparr>"

definition two_agent_engine :: ConversationEngine where
  "two_agent_engine =
     add_agent (add_agent (ConversationEngine_init ''http://localhost:11434'') agent_a) agent_b"

definition one_agent_engine :: ConversationEngine where
  "one_agent_engine = add_agent (ConversationEngine_init ''http://localhost:11434'') agent_a"

definition timeout_env :: "int \<Rightarrow> env" where
  "timeout_env c =
     \<lparr>rnd = 0, rnd2 = 0, backend = (\<lambda>req. Inl Timeout), clock_ms = c, now = c * 1000,
      stop_signal = False, seed_text = ''ocean + time''\<rparr>"

text \<open>A conversation started in each engine, two conversations started at the same
  reading of the clock, and a run of three exchanges in which every backend call times
  out.\<close>

definition started_pair :: ConversationEngine where
  "started_pair =
     fst (start_conversation (timeout_env 1700000000000) two_agent_engine ''conv_1''
            (Some ''ocean + time''))"

definition started_single :: ConversationEngine where
  "started_single =
     fst (start_conversation (timeout_env 1700000000000) one_agent_engine ''conv_1''
            (Some ''ocean + time''))"

definition same_instant_starts :: ConversationEngine where
  "same_instant_starts =
     fst (start_conversation (timeout_env 1700000000000)
            (fst (start_conversation (timeout_env 1700000000000) two_agent_engine ''conv_a''
                    (Some ''ocean + time'')))
            ''conv_b'' (Some ''ocean + time''))"

definition three_timeouts :: "env list" where
  "three_timeouts =
     [timeout_env 1700000002000, timeout_env 1700000005000, timeout_env 1700000008000]"

definition three_exchange_run :: "(ConversationEngine \<times> outcome) option" where
  "three_exchange_run = process_conversation three_timeouts started_pair ''conv_1'' 3"

definition fresh_dreamer :: "int \<Rightarrow> DreamingAI" where
  "fresh_dreamer n =
     \<lparr>reasoning_engine = \<lparr>ollama_url = ''http://localhost:11434'', model = ''gemma2:2b''\<rparr>,
      memory = MemorySystem_init [] [], is_dreaming = True, thoughts_generated = [],
      max_thoughts_per_session = n\<rparr>"

lemma starts_with_iff: "starts_with kw t \<longleftrightarrow> (\<exists>post. t = kw @ post)"
  by (induction kw t rule: starts_with.induct) auto

lemma str_in_iff: "str_in kw t \<longleftrightarrow> (\<exists>pre post. t = pre @ kw @ post)"
proof (induction t)
  case Nil
  then show ?case by simp
next
  case (Cons c cs)
  show ?case
  proof
    assume "str_in kw (c # cs)"
    then consider "starts_with kw (c # cs)" | "str_in kw cs" by auto
    then show "\<exists>pre post. c # cs = pre @ kw @ post"
    proof cases
      case 1
      then obtain post where "c # cs = kw @ post" by (auto simp: starts_with_iff)
      then have "c # cs = [] @ kw @ post" by simp
      then show ?thesis by blast
    next
      case 2
      then obtain pre post where "cs = pre @ kw @ post" using Cons.IH by auto
      then have "c # cs = (c # pre) @ kw @ post" by simp
      then show ?thesis by blast
    qed
  next
    assume "\<exists>pre post. c # cs = pre @ kw @ post"
    then obtain pre post where eq: "c # cs = pre @ kw @ post" by blast
    show "str_in kw (c # cs)"
    proof (cases pre)
      case Nil
      with eq have "starts_with kw (c # cs)" by (auto simp: starts_with_iff)
      then show ?thesis by simp
    next
      case (Cons p ps)
      with eq have "cs = ps @ kw @ post" by simp
      then have "str_in kw cs" using Cons.IH by blast
      then show ?thesis by simp
    qed
  qed
qed

lemma eureka_moment_gold: "is_gold_strike ''this is a eureka moment'' score"
  by (simp add: is_gold_strike_def lower_def lower_char_def gold_strike_indicators_def)

text \<open>
  Claim C1.  \<open>is_gold_strike\<close> is true exactly when the score exceeds 0.6 or one of the
  gold-strike indicators occurs as a substring of the lowercased text; the text
  "this is a eureka moment" is gold at every score, also at scores of at most 0.6.
\<close>

theorem is_gold_strike_disjunction:
  "(is_gold_strike thought score \<longleftrightarrow>
      score > 0.6 \<or> (\<exists>indicator\<in>set gold_strike_indicators.
                       \<exists>pre post. lower thought = pre @ indicator @ post))
   \<and> (score \<le> 0.6 \<longrightarrow> is_gold_strike ''this is a eureka moment'' score)"
proof (intro conjI impI)
  show "is_gold_strike thought score \<longleftrightarrow>
      score > 0.6 \<or> (\<exists>indicator\<in>set gold_strike_indicators.
                       \<exists>pre post. lower thought = pre @ indicator @ post)"
    by (simp add: is_gold_strike_def list_ex_iff str_in_iff)
  show "is_gold_strike ''this is a eureka moment'' score"
    by (rule eureka_moment_gold)
qed

theorem is_gold_strike_disjunction_witness:
  "(1/2 :: real) \<le> 0.6 \<and> is_gold_strike ''this is a eureka moment'' (1/2)
   \<and> \<not> is_gold_strike ''plain text'' (1/2)"
proof -
  have a: "\<not> is_gold_strike ''plain text'' (1/2)"
    by (simp add: is_gold_strike_def lower_def lower_char_def gold_strike_indicators_def)
  have b: "(1/2 :: real) \<le> 0.6" by simp
  from is_gold_strike_disjunction [of "''this is a eureka moment''" "1/2"]
  have "is_gold_strike ''this is a eureka moment'' (1/2)" using b by blast
  with a b show ?thesis by blast
qed


subsection \<open>The model of double arithmetic\<close>

lemma ilog2_bounds: "0 < n \<Longrightarrow> 2 ^ ilog2 n \<le> n \<and> n < 2 ^ Suc (ilog2 n)"
proof (induction n rule: ilog2.induct)
  case (1 n)
  show ?case
  proof (cases "n < 2")
    case True
    with "1.prems" have "n = 1" by simp
    then show ?thesis by (simp add: ilog2.simps)
  next
    case False
    then have pos: "0 < n div 2" by simp
    from "1.IH" [OF False pos]
    have lo: "2 ^ ilog2 (n div 2) \<le> n div 2" and hi: "n div 2 < 2 ^ Suc (ilog2 (n div 2))"
      by simp_all
    have eq: "ilog2 n = Suc (ilog2 (n div 2))" using False by (subst ilog2.simps) simp
    from lo have "2 * 2 ^ ilog2 (n div 2) \<le> n" by simp
    moreover from hi have "n < 2 * 2 ^ Suc (ilog2 (n div 2))" by simp
    ultimately show ?thesis unfolding eq by simp
  qed
qed

lemma double_round_zero [simp]: "double_round 0 = 0"
  by (simp add: double_round_def)

lemma round_half_even_nonneg: "0 \<le> x \<Longrightarrow> 0 \<le> round_half_even x"
  by (simp add: round_half_even_def Let_def)

lemma round_half_even_nearest: "\<bar>of_int (round_half_even x) - x\<bar> \<le> 1 / 2"
proof -
  have "of_int \<lfloor>x\<rfloor> \<le> x" and "x < of_int \<lfloor>x\<rfloor> + 1" by linarith+
  then show ?thesis by (auto simp: round_half_even_def Let_def)
qed

lemma double_round_nonneg: "0 \<le> x \<Longrightarrow> 0 \<le> double_round x"
proof -
  assume x: "0 \<le> x"
  let ?u = "(2::real) powi (max (binade x) (- 1022) - 52)"
  have u: "0 < ?u" by simp
  with x have "0 \<le> x / ?u" by simp
  then have "0 \<le> round_half_even (x / ?u)" by (rule round_half_even_nonneg)
  with u have "0 \<le> of_int (round_half_even (x / ?u)) * ?u" by simp
  then show ?thesis by (simp add: double_round_def Let_def)
qed

lemma double_ops_nonneg:
  "0 \<le> x \<Longrightarrow> 0 \<le> y \<Longrightarrow> 0 \<le> dadd x y"
  "0 \<le> x \<Longrightarrow> 0 \<le> y \<Longrightarrow> 0 \<le> dmul x y"
  "0 \<le> q \<Longrightarrow> 0 \<le> float_literal q"
  "0 \<le> i \<Longrightarrow> 0 \<le> float_of_int i"
  by (simp_all add: dadd_def dmul_def float_literal_def float_of_int_def double_round_nonneg)

lemma fold_bonus_nonneg:
  "0 \<le> c \<Longrightarrow> 0 \<le> s
     \<Longrightarrow> 0 \<le> fold (\<lambda>k score. if P k then dadd score c else score) ks s"
  by (induction ks arbitrary: s) (simp_all add: double_ops_nonneg)

lemma fold_bonus_replicate:
  "fold (\<lambda>k score. if P k then dadd score c else score) ks s
     = foldl dadd s (replicate (length (filter P ks)) c)"
  by (induction ks arbitrary: s) simp_all


lemma binade_bounds:
  assumes "x \<noteq> 0"
  shows "2 powi (binade x) \<le> \<bar>x\<bar> \<and> \<bar>x\<bar> < 2 powi (binade x + 1)"
proof (cases "1 \<le> \<bar>x\<bar>")
  case True
  let ?n = "nat \<lfloor>\<bar>x\<bar>\<rfloor>"
  let ?k = "ilog2 ?n"
  from True have n: "0 < ?n" by simp
  from ilog2_bounds [OF n] have lo: "2 ^ ?k \<le> ?n" and hi: "?n < 2 ^ Suc ?k" by simp_all
  have b: "binade x = int ?k" using True by (simp add: binade_def Let_def)
  have fl: "real ?n \<le> \<bar>x\<bar>" "\<bar>x\<bar> < real ?n + 1" using True by linarith+
  from lo have "real (2 ^ ?k) \<le> real ?n" by (rule of_nat_mono)
  then have "(2::real) ^ ?k \<le> real ?n" by simp
  with fl have l: "(2::real) ^ ?k \<le> \<bar>x\<bar>" by linarith
  from hi have "?n + 1 \<le> 2 ^ Suc ?k" by simp
  then have "real (?n + 1) \<le> real (2 ^ Suc ?k)" by (rule of_nat_mono)
  then have "real ?n + 1 \<le> (2::real) ^ Suc ?k" by simp
  with fl have h: "\<bar>x\<bar> < (2::real) ^ Suc ?k" by linarith
  have p1: "(2::real) powi (int ?k) = 2 ^ ?k" by (simp add: power_int_def)
  have p2: "(2::real) powi (int ?k + 1) = 2 ^ Suc ?k"
    using power_int_def [of "2::real" "int ?k + 1"] by (simp add: nat_add_distrib)
  from l h show ?thesis unfolding b p1 p2 by simp
next
  case False
  define a where "a = \<bar>x\<bar>"
  define m where "m = nat \<lceil>1 / a\<rceil>"
  define j where "j = ilog2 (m - 1)"
  from assms have a0: "0 < a" by (simp add: a_def)
  from False have a1: "a < 1" by (simp add: a_def)
  from a0 a1 have inv: "1 < 1 / a" by simp
  then have "2 \<le> \<lceil>1 / a\<rceil>" by linarith
  then have m2: "2 \<le> m" unfolding m_def by linarith
  then have m1: "0 < m - 1" by linarith
  from ilog2_bounds [OF m1] have lo: "2 ^ j \<le> m - 1" and hi: "m - 1 < 2 ^ Suc j"
    unfolding j_def by blast+
  from m2 have nm: "\<not> m \<le> 1" by linarith
  have b: "binade x = - int (Suc j)"
    unfolding binade_def Let_def a_def [symmetric] m_def [symmetric] j_def
    using False nm by (simp only: if_False a_def)
  have ce: "1 / a \<le> real m" "real m - 1 < 1 / a" unfolding m_def using inv by linarith+
  from hi m2 have "m \<le> 2 ^ Suc j" by linarith
  then have "real m \<le> real (2 ^ Suc j)" by (rule of_nat_mono)
  then have "real m \<le> (2::real) ^ Suc j" by simp
  with ce have u: "1 / a \<le> (2::real) ^ Suc j" by linarith
  from lo have "real (2 ^ j) \<le> real (m - 1)" by (rule of_nat_mono)
  then have "real (m - 1) \<ge> (2::real) ^ j" by simp
  moreover have "real (m - 1) = real m - 1" using m2 by (simp add: of_nat_diff)
  ultimately have l: "(2::real) ^ j < 1 / a" using ce by linarith
  have pj: "0 < (2::real) ^ j" "0 < (2::real) ^ Suc j" by simp_all
  from u a0 pj(2) have r1: "1 / (2::real) ^ Suc j \<le> a"
    by (simp only: pos_divide_le_eq pos_le_divide_eq mult.commute)
  from l a0 pj(1) have r2: "a < 1 / (2::real) ^ j"
    by (simp only: pos_less_divide_eq pos_divide_less_eq mult.commute)
  have p1: "(2::real) powi (- int (Suc j)) = 1 / 2 ^ Suc j"
    by (simp add: power_int_def inverse_eq_divide power_one_over del: power_Suc)
  have p2: "(2::real) powi (- int (Suc j) + 1) = 1 / 2 ^ j"
    by (simp add: power_int_def inverse_eq_divide power_one_over)
  from r1 r2 show ?thesis unfolding b p1 p2 a_def by simp
qed

lemma double_round_error:
  assumes "x \<noteq> 0" and "- 1022 \<le> binade x"
  shows "\<bar>double_round x - x\<bar> \<le> 2 powi (binade x - 53)"
proof -
  let ?u = "(2::real) powi (binade x - 52)"
  have u: "0 < ?u" by simp
  have d: "double_round x = of_int (round_half_even (x / ?u)) * ?u"
    using assms by (simp add: double_round_def Let_def max_def)
  have "\<bar>of_int (round_half_even (x / ?u)) - x / ?u\<bar> \<le> 1 / 2"
    by (rule round_half_even_nearest)
  then have "\<bar>of_int (round_half_even (x / ?u)) - x / ?u\<bar> * ?u \<le> 1 / 2 * ?u"
    using u by (simp only: mult_le_cancel_right_pos)
  moreover have "\<bar>of_int (round_half_even (x / ?u)) - x / ?u\<bar> * ?u
      = \<bar>of_int (round_half_even (x / ?u)) * ?u - x\<bar>"
  proof -
    have "\<bar>of_int (round_half_even (x / ?u)) - x / ?u\<bar> * ?u
        = \<bar>(of_int (round_half_even (x / ?u)) - x / ?u) * ?u\<bar>"
      using u by (simp only: abs_mult abs_of_pos)
    also have "(of_int (round_half_even (x / ?u)) - x / ?u) * ?u
        = of_int (round_half_even (x / ?u)) * ?u - x"
      using u by (simp add: left_diff_distrib)
    finally show ?thesis .
  qed
  moreover have "1 / 2 * ?u = 2 powi (binade x - 53)"
    by (simp add: power_int_diff)
  ultimately show ?thesis unfolding d by simp
qed

text \<open>
  Claim C2.  The interest score of every text lies between 0 and 1 inclusive.
\<close>

theorem calculate_interest_score_bounded:
  "0 \<le> calculate_interest_score thought \<and> calculate_interest_score thought \<le> 1"
proof -
  let ?L = "lower thought"
  let ?s1 = "fold (\<lambda>keyword score.
                 if str_in keyword ?L then dadd score (float_literal (1 / 10)) else score)
               interest_keywords (0::real)"
  let ?s2 = "fold (\<lambda>indicator score.
                 if str_in indicator ?L then dadd score (float_literal (1 / 2)) else score)
               gold_strike_indicators ?s1"
  let ?s3 = "if length thought > 100 then dadd ?s2 (float_literal (1 / 10)) else ?s2"
  let ?q = "dmul (float_of_int (int (str_count thought CHR ''?''))) (float_literal (1 / 20))"
  let ?e = "dmul (float_of_int (int (str_count thought CHR ''!''))) (float_literal (1 / 10))"
  have s1: "0 \<le> ?s1" by (rule fold_bonus_nonneg) (simp_all add: double_ops_nonneg)
  have s2: "0 \<le> ?s2" using _ s1 by (rule fold_bonus_nonneg) (simp add: double_ops_nonneg)
  have s3: "0 \<le> ?s3" using s2 by (simp add: double_ops_nonneg)
  have q: "0 \<le> ?q" by (simp add: double_ops_nonneg)
  have e: "0 \<le> ?e" by (simp add: double_ops_nonneg)
  have s4: "0 \<le> dadd ?s3 ?q" using s3 q by (rule double_ops_nonneg)
  have s5: "0 \<le> dadd (dadd ?s3 ?q) ?e" using s4 e by (rule double_ops_nonneg)
  have "calculate_interest_score thought = min (dadd (dadd ?s3 ?q) ?e) 1"
    by (simp add: calculate_interest_score_def Let_def)
  with s5 show ?thesis by (simp add: min_def)
qed

subsection \<open>The additive model\<close>

lemma lower_char_plus_32:
  assumes "(65 \<le> (of_char c :: nat) \<and> (of_char c :: nat) \<le> 90)
         \<or> (192 \<le> (of_char c :: nat) \<and> (of_char c :: nat) \<le> 222 \<and> (of_char c :: nat) \<noteq> 215)"
  shows "(of_char (lower_char c) :: nat) = of_char c + 32"
proof (cases c)
  case (Char b0 b1 b2 b3 b4 b5 b6 b7)
  have "\<not> b5" using assms unfolding Char
    by (cases b0; cases b1; cases b2; cases b3; cases b4; cases b5; cases b6; cases b7; simp)
  then show ?thesis using assms unfolding Char
    by (simp add: lower_char_def Let_def del: of_char_Char) (simp)
qed

lemma lower_char_not_I: "lower_char c \<noteq> CHR ''I''"
proof (cases "(65 \<le> (of_char c :: nat) \<and> (of_char c :: nat) \<le> 90)
        \<or> (192 \<le> (of_char c :: nat) \<and> (of_char c :: nat) \<le> 222 \<and> (of_char c :: nat) \<noteq> 215)")
  case True
  then have "lower_char c =
      Char (digit0 c) (digit1 c) (digit2 c) (digit3 c) (digit4 c) True (digit6 c) (digit7 c)"
    by (simp only: lower_char_def Let_def if_P)
  then show ?thesis by simp
next
  case False
  have eq: "lower_char c = c" by (simp only: lower_char_def Let_def if_not_P [OF False])
  show ?thesis
  proof
    assume "lower_char c = CHR ''I''"
    with eq have "c = CHR ''I''" by simp
    with False show False by simp
  qed
qed

lemma lower_no_I: "CHR ''I'' \<notin> set (lower t)"
proof
  assume "CHR ''I'' \<in> set (lower t)"
  then obtain c where "lower_char c = CHR ''I''" by (auto simp: lower_def)
  with lower_char_not_I show False by blast
qed

lemma str_in_subset: "str_in kw t \<Longrightarrow> set kw \<subseteq> set t"
  by (auto simp: str_in_iff)

lemma now_I_see_never: "\<not> str_in ''now I see'' (lower t)"
proof
  assume "str_in ''now I see'' (lower t)"
  then have "set ''now I see'' \<subseteq> set (lower t)" by (rule str_in_subset)
  then have "CHR ''I'' \<in> set (lower t)" by simp
  then show False using lower_no_I by blast
qed

lemma interest_keywords_lower: "\<forall>k\<in>set interest_keywords. lower k = k"
  by (simp add: interest_keywords_def lower_def lower_char_def)

lemma gold_strike_indicators_lower:
  "\<forall>k\<in>set gold_strike_indicators. k = ''now I see'' \<or> lower k = k"
  by (simp add: gold_strike_indicators_def lower_def lower_char_def)

lemma interest_filter_eq:
  "filter (\<lambda>k. str_in k low) interest_keywords
     = filter (\<lambda>k. str_in (lower k) low) interest_keywords"
  by (rule filter_cong) (simp_all add: interest_keywords_lower)

lemma gold_filter_eq:
  assumes "\<not> keyword_present ''now I see'' thought"
  shows "filter (\<lambda>k. str_in k (lower thought)) gold_strike_indicators
     = filter (\<lambda>k. str_in (lower k) (lower thought)) gold_strike_indicators"
proof (rule filter_cong)
  fix k assume "k \<in> set gold_strike_indicators"
  then consider "k = ''now I see''" | "lower k = k"
    using gold_strike_indicators_lower by blast
  then show "str_in k (lower thought) = str_in (lower k) (lower thought)"
  proof cases
    case 1
    then show ?thesis using assms now_I_see_never [of thought]
      by (simp only: keyword_present_def)
  next
    case 2
    then show ?thesis by simp
  qed
qed simp

lemma spec_eureka: "spec_interest_score ''eureka eureka'' = 1"
  by (simp add: spec_interest_score_def Let_def lower_def lower_char_def interest_keywords_def
        gold_strike_indicators_def str_count_def)

lemma code_eureka: "calculate_interest_score ''eureka eureka'' = 1 / 2"
  by code_simp

text \<open>
  Claim C3 as it is worded.  The additive model of the specification counts every
  occurrence of a keyword; the code adds a keyword's bonus once.  On "eureka eureka"
  the code scores 0.5 and the worded model 1.
\<close>

theorem spec_score_counterexample:
  "calculate_interest_score ''eureka eureka'' \<noteq> spec_interest_score ''eureka eureka''"
  by (simp add: spec_eureka code_eureka)

lemma plain_text_score: "calculate_interest_score ''plain text'' = 0"
  by code_simp

lemma calculate_interest_score_closed:
  "calculate_interest_score thought =
     min (double_total
            (replicate (length (filter (\<lambda>k. str_in k (lower thought)) interest_keywords))
               (float_literal (1 / 10))
             @ replicate (length (filter (\<lambda>k. str_in k (lower thought)) gold_strike_indicators))
                 (float_literal (1 / 2))
             @ (if length thought > 100 then [float_literal (1 / 10)] else [])
             @ [dmul (float_of_int (int (str_count thought CHR ''?''))) (float_literal (1 / 20)),
                dmul (float_of_int (int (str_count thought CHR ''!''))) (float_literal (1 / 10))])) 1"
  unfolding calculate_interest_score_def Let_def fold_bonus_replicate double_total_def foldl_append
  by simp

text \<open>
  Claim C3, amended.  For every text in which "now I see" does not occur (matched
  without regard to case), the interest score is the additive model that counts each
  keyword once when it occurs at least once in the text, matched without regard to
  case: 0.1 for each of the generic keywords, 0.5 for each of the gold-strike
  indicators, 0.1 if the text is longer than 100 characters, 0.05 times the number of
  question marks and 0.1 times the number of exclamation marks.  The terms are added in
  this order in double arithmetic, every sum and product rounded to the nearest double,
  and the total is capped at 1.  The text "plain text" scores exactly 0.
\<close>

theorem calculate_interest_score_presence_model:
  "(\<not> keyword_present ''now I see'' thought \<longrightarrow>
      calculate_interest_score thought = presence_interest_score thought)
   \<and> calculate_interest_score ''plain text'' = 0"
proof (intro conjI impI)
  assume h: "\<not> keyword_present ''now I see'' thought"
  show "calculate_interest_score thought = presence_interest_score thought"
    unfolding calculate_interest_score_closed presence_interest_score_def Let_def
      interest_filter_eq gold_filter_eq [OF h]
    by (rule refl)
next
  show "calculate_interest_score ''plain text'' = 0" by (rule plain_text_score)
qed

theorem calculate_interest_score_presence_model_witness:
  "\<not> keyword_present ''now I see'' ''pattern similar connection!!!''
   \<and> calculate_interest_score ''pattern similar connection!!!''
       = presence_interest_score ''pattern similar connection!!!''
   \<and> calculate_interest_score ''pattern similar connection!!!''
       = 1351079888211149 / 2251799813685248
   \<and> calculate_interest_score ''pattern similar connection!!!'' \<noteq> 3 / 5"
proof -
  have h: "\<not> keyword_present ''now I see'' ''pattern similar connection!!!''"
    by code_simp
  have v: "calculate_interest_score ''pattern similar connection!!!''
       = 1351079888211149 / 2251799813685248"
    by code_simp
  have n: "calculate_interest_score ''pattern similar connection!!!'' \<noteq> 3 / 5"
    unfolding v by simp
  from calculate_interest_score_presence_model [of "''pattern similar connection!!!''"] h
  have "calculate_interest_score ''pattern similar connection!!!''
       = presence_interest_score ''pattern similar connection!!!''" by blast
  with h v n show ?thesis by blast
qed

section \<open>Properties of the MemorySystem\<close>

lemma insert_or_replace_unique:
  "filter (\<lambda>r. key r = key row) (insert_or_replace key row rows) = [row]"
  by (induction rows) (auto simp: insert_or_replace_def)

lemma insert_or_replace_others:
  "k \<noteq> key row \<Longrightarrow>
     filter (\<lambda>r. key r = k) (insert_or_replace key row rows) = filter (\<lambda>r. key r = k) rows"
  by (induction rows) (auto simp: insert_or_replace_def)

lemma thoughts_table_add_thought:
  "thoughts_table (add_thought ms t) = insert_or_replace thought_id t (thoughts_table ms)"
  by (simp add: add_thought_def Let_def)

text \<open>
  Claim C7.  When two records with the same id are added one after the other, the
  \<open>thoughts\<close> table holds exactly one row with that id afterwards, and it is the second
  record with the second record's content; after the first call alone it was the first
  record.
\<close>

theorem add_thought_upsert:
  assumes "thought_id t1 = thought_id t2"
  shows "filter (\<lambda>r. thought_id r = thought_id t2) (thoughts_table (add_thought ms t1)) = [t1]
       \<and> filter (\<lambda>r. thought_id r = thought_id t2)
            (thoughts_table (add_thought (add_thought ms t1) t2)) = [t2]
       \<and> map content (filter (\<lambda>r. thought_id r = thought_id t2)
            (thoughts_table (add_thought (add_thought ms t1) t2))) = [content t2]"
proof -
  have a: "filter (\<lambda>r. thought_id r = thought_id t1) (thoughts_table (add_thought ms t1)) = [t1]"
    unfolding thoughts_table_add_thought by (rule insert_or_replace_unique)
  have b: "filter (\<lambda>r. thought_id r = thought_id t2)
            (thoughts_table (add_thought (add_thought ms t1) t2)) = [t2]"
    unfolding thoughts_table_add_thought by (rule insert_or_replace_unique)
  from a b assms show ?thesis by simp
qed

lemma short_term_add_thought:
  "short_term_memory (add_thought ms t) =
     (if length (short_term_memory ms) + 1 > max_short_term ms
      then tl (short_term_memory ms @ [t]) else short_term_memory ms @ [t])"
  by (simp add: add_thought_def Let_def)

lemma max_short_term_add_thought [simp]: "max_short_term (add_thought ms t) = max_short_term ms"
  by (simp add: add_thought_def Let_def)

lemma short_term_add_thought_drop:
  assumes "length (short_term_memory ms) \<le> max_short_term ms"
  shows "short_term_memory (add_thought ms t) =
           drop (length (short_term_memory ms @ [t]) - max_short_term ms) (short_term_memory ms @ [t])"
proof (cases "length (short_term_memory ms) + 1 > max_short_term ms")
  case True
  with assms have len1: "length (short_term_memory ms @ [t]) - max_short_term ms = Suc 0" by simp
  have "short_term_memory (add_thought ms t) = tl (short_term_memory ms @ [t])"
    using True by (simp add: short_term_add_thought)
  also have "\<dots> = drop (Suc 0) (short_term_memory ms @ [t])"
    by (simp only: drop_Suc drop_0)
  finally show ?thesis by (simp only: len1)
next
  case False
  then show ?thesis by (simp add: short_term_add_thought)
qed

lemma drop_after_eviction:
  "drop (length (tl (b @ [t]) @ ts) - length b) (tl (b @ [t]) @ ts)
     = drop (length (b @ t # ts) - length b) (b @ t # ts)"
  by (cases b) simp_all

lemma short_term_add_thoughts:
  "length (short_term_memory ms) \<le> max_short_term ms \<Longrightarrow>
     short_term_memory (add_thoughts ms ts) =
       drop (length (short_term_memory ms @ ts) - max_short_term ms) (short_term_memory ms @ ts)
     \<and> max_short_term (add_thoughts ms ts) = max_short_term ms"
proof (induction ts arbitrary: ms)
  case Nil
  then show ?case by (simp add: add_thoughts_def)
next
  case (Cons t ts)
  let ?b = "short_term_memory ms"
  let ?c = "max_short_term ms"
  let ?ms' = "add_thought ms t"
  have s': "short_term_memory ?ms' = drop (length (?b @ [t]) - ?c) (?b @ [t])"
    using Cons.prems by (rule short_term_add_thought_drop)
  have len': "length (short_term_memory ?ms') \<le> max_short_term ?ms'"
    unfolding s' by simp
  have step: "add_thoughts ms (t # ts) = add_thoughts ?ms' ts"
    by (simp add: add_thoughts_def)
  from Cons.IH [OF len']
  have ih: "short_term_memory (add_thoughts ?ms' ts) =
       drop (length (short_term_memory ?ms' @ ts) - ?c) (short_term_memory ?ms' @ ts)"
    and cap: "max_short_term (add_thoughts ?ms' ts) = ?c" by simp_all
  have "drop (length (short_term_memory ?ms' @ ts) - ?c) (short_term_memory ?ms' @ ts)
      = drop (length (?b @ t # ts) - ?c) (?b @ t # ts)"
  proof (cases "length ?b + 1 > ?c")
    case True
    with Cons.prems have eq: "?c = length ?b" by simp
    have "short_term_memory ?ms' = tl (?b @ [t])"
      using True by (simp add: short_term_add_thought)
    then show ?thesis unfolding eq by (simp only: drop_after_eviction)
  next
    case False
    then show ?thesis by (simp add: short_term_add_thought)
  qed
  with ih cap step show ?case by simp
qed

lemma slice_from_neg:
  "0 < n \<Longrightarrow> slice_from (- int n) xs = drop (length xs - n) xs"
  by (auto simp: slice_from_def Let_def max_def nat_diff_distrib')

lemma slice_from_zero: "slice_from 0 xs = xs"
  by (simp add: slice_from_def Let_def)

lemma get_recent_thoughts_after_adds:
  assumes "short_term_memory ms = []" and "max_short_term ms < length ts" and "0 < n"
  shows "get_recent_thoughts (add_thoughts ms ts) (int n)
           = drop (length ts - min n (max_short_term ms)) ts"
proof -
  from assms(1) have "short_term_memory (add_thoughts ms ts)
      = drop (length ts - max_short_term ms) ts"
    using short_term_add_thoughts [of ms ts] by simp
  then show ?thesis using assms(2,3)
    by (auto simp: get_recent_thoughts_def slice_from_neg min_def)
qed

lemma get_recent_thoughts_zero_after_adds:
  assumes "short_term_memory ms = []" and "max_short_term ms < length ts"
  shows "get_recent_thoughts (add_thoughts ms ts) 0 = drop (length ts - max_short_term ms) ts"
  using assms short_term_add_thoughts [of ms ts]
  by (simp add: get_recent_thoughts_def slice_from_zero)

text \<open>
  Claim C6 at the limit 0.  After 21 records have been added to a fresh memory of
  capacity 20, \<open>get_recent_thoughts\<close> with limit 0 returns the 20 buffered records, not
  \<open>min 0 20 = 0\<close> records: the slice \<open>short_term_memory[-0:]\<close> is the whole buffer.
  For every limit of at least 1 the result is the last \<open>min limit capacity\<close> records
  added (\<open>get_recent_thoughts_after_adds\<close>).
\<close>

theorem get_recent_thoughts_zero_returns_buffer:
  "length (get_recent_thoughts
             (add_thoughts (MemorySystem_init [] []) (map numbered_thought [0..<21])) 0) = 20"
proof -
  have "get_recent_thoughts
          (add_thoughts (MemorySystem_init [] []) (map numbered_thought [0..<21])) 0
        = drop (length (map numbered_thought [0..<21]) - max_short_term (MemorySystem_init [] []))
            (map numbered_thought [0..<21])"
    by (rule get_recent_thoughts_zero_after_adds) (simp_all add: MemorySystem_init_def)
  then show ?thesis by (simp add: MemorySystem_init_def)
qed

text \<open>
  Claim C10.  When a record is added whose id is already in a short-term buffer that is
  not full, the buffer grows by one entry, \<open>get_recent_thoughts\<close> with a limit that
  covers the buffer returns at least two entries with that id, and the \<open>thoughts\<close>
  table holds exactly one row with that id.
\<close>

theorem add_thought_duplicate_in_buffer:
  assumes "thought_id t \<in> thought_id ` set (short_term_memory ms)"
    and "length (short_term_memory ms) < max_short_term ms"
  shows "length (short_term_memory (add_thought ms t)) = length (short_term_memory ms) + 1
       \<and> 2 \<le> length (filter (\<lambda>r. thought_id r = thought_id t)
                  (get_recent_thoughts (add_thought ms t) (int (length (short_term_memory ms)) + 1)))
       \<and> length (filter (\<lambda>r. thought_id r = thought_id t) (thoughts_table (add_thought ms t))) = 1"
proof -
  let ?b = "short_term_memory ms"
  have s: "short_term_memory (add_thought ms t) = ?b @ [t]"
    using assms(2) by (simp add: short_term_add_thought)
  have g: "get_recent_thoughts (add_thought ms t) (int (length ?b) + 1) = ?b @ [t]"
    by (simp add: get_recent_thoughts_def s slice_from_def Let_def)
  from assms(1) obtain r where "r \<in> set ?b" "thought_id r = thought_id t" by auto
  then have "filter (\<lambda>r. thought_id r = thought_id t) ?b \<noteq> []"
    by (auto simp: filter_empty_conv)
  then have "1 \<le> length (filter (\<lambda>r. thought_id r = thought_id t) ?b)"
    by (cases "filter (\<lambda>r. thought_id r = thought_id t) ?b") simp_all
  then have two: "2 \<le> length (filter (\<lambda>r. thought_id r = thought_id t) (?b @ [t]))" by simp
  have one: "length (filter (\<lambda>r. thought_id r = thought_id t) (thoughts_table (add_thought ms t))) = 1"
    by (simp add: thoughts_table_add_thought insert_or_replace_unique)
  from s g two one show ?thesis by simp
qed

theorem add_thought_upsert_witness:
  "thought_id (numbered_thought 7) = thought_id ((numbered_thought 7)\<lparr>content := ''second''\<rparr>)
   \<and> map content
        (filter (\<lambda>r. thought_id r = thought_id ((numbered_thought 7)\<lparr>content := ''second''\<rparr>))
           (thoughts_table
              (add_thought (add_thought (MemorySystem_init [] []) (numbered_thought 7))
                 ((numbered_thought 7)\<lparr>content := ''second''\<rparr>))))
       = [''second'']"
proof -
  have h: "thought_id (numbered_thought 7)
             = thought_id ((numbered_thought 7)\<lparr>content := ''second''\<rparr>)" by simp
  note m = add_thought_upsert [OF h, of "MemorySystem_init [] []", THEN conjunct2, THEN conjunct2]
  have v: "[content ((numbered_thought 7)\<lparr>content := ''second''\<rparr>)] = [''second'']"
    by simp
  show ?thesis
    by (intro conjI) (rule h, rule trans [OF m v])
qed

theorem add_thought_duplicate_in_buffer_witness:
  "thought_id (numbered_thought 7)
     \<in> thought_id ` set (short_term_memory (add_thought (MemorySystem_init [] []) (numbered_thought 7)))
   \<and> length (short_term_memory (add_thought (MemorySystem_init [] []) (numbered_thought 7)))
       < max_short_term (add_thought (MemorySystem_init [] []) (numbered_thought 7))
   \<and> length (short_term_memory
         (add_thought (add_thought (MemorySystem_init [] []) (numbered_thought 7))
            (numbered_thought 7))) = 2
   \<and> length (filter (\<lambda>r. thought_id r = thought_id (numbered_thought 7))
         (thoughts_table
            (add_thought (add_thought (MemorySystem_init [] []) (numbered_thought 7))
               (numbered_thought 7)))) = 1"
proof -
  let ?ms = "add_thought (MemorySystem_init [] []) (numbered_thought 7)"
  have b: "short_term_memory ?ms = [numbered_thought 7]"
    by (simp add: short_term_add_thought MemorySystem_init_def)
  have h1: "thought_id (numbered_thought 7) \<in> thought_id ` set (short_term_memory ?ms)"
    by (simp add: b)
  have h2: "length (short_term_memory ?ms) < max_short_term ?ms"
    unfolding b by (simp add: MemorySystem_init_def)
  note c = add_thought_duplicate_in_buffer [OF h1 h2]
  from c [THEN conjunct1]
  have c1: "length (short_term_memory (add_thought ?ms (numbered_thought 7))) = 2"
    unfolding b by simp
  note c2 = c [THEN conjunct2, THEN conjunct2]
  show ?thesis
    by (intro conjI) (rule h1, rule h2, rule c1, rule c2)
qed


section \<open>Properties of thought generation under backend failure\<close>

lemma random_choice_nonempty:
  "xs \<noteq> [] \<Longrightarrow> \<exists>x\<in>set xs. random_choice r xs = Inr x"
  by (simp add: random_choice_def)

lemma reasoning_modes_nonempty: "reasoning_modes \<noteq> []"
  by (simp add: reasoning_modes_def)

lemma fallbacks_nonempty: "fallbacks \<noteq> []"
  by (simp add: fallbacks_def)

lemma fallbacks_not_blank: "s \<in> set fallbacks \<Longrightarrow> s \<noteq> []"
  by (auto simp: fallbacks_def)

lemma fallback_response_canned: "\<exists>s\<in>set fallbacks. fallback_response r agent = Inr s"
  unfolding fallback_response_def by (rule random_choice_nonempty [OF fallbacks_nonempty])

lemma generate_thought_try_failed:
  assumes "failed (post \<lparr>url = ollama_url engine @ ''/api/generate'', request_model = model engine,
                        prompt = p\<rparr>)"
  shows "generate_thought_try engine post p = Inr thought_filler_status
       \<or> (\<exists>e. is_Exception e \<and> generate_thought_try engine post p = Inl e)"
proof (cases "post \<lparr>url = ollama_url engine @ ''/api/generate'', request_model = model engine,
                    prompt = p\<rparr>")
  case (Inl e)
  with assms show ?thesis by (simp add: generate_thought_try_def)
next
  case (Inr response)
  with assms show ?thesis by (simp add: generate_thought_try_def)
qed

lemma generate_thought_failed:
  assumes "\<And>req. failed (post req)"
  shows "generate_thought engine post r context mode = Inr thought_filler_status
       \<or> generate_thought engine post r context mode = Inr thought_filler_except"
proof -
  obtain m where m: "(case mode of None \<Rightarrow> random_choice r reasoning_modes | Some m \<Rightarrow> Inr m) = Inr m"
    using random_choice_nonempty [OF reasoning_modes_nonempty, of r]
    by (cases mode) auto
  let ?p = "build_prompt
              (if context \<noteq> []
               then join (encode [newline])
                      (map (\<lambda>t. encode ''['' @ upper (thought_type t) @ encode ''] ''
                                @ encode (content t))
                           (slice_from (- 5) context))
               else []) m"
  from generate_thought_try_failed [where post = post and engine = engine and p = ?p, OF assms]
  show ?thesis
    unfolding generate_thought_def m by (auto simp: Let_def)
qed


lemma generate_response_try_failed:
  assumes "failed (post \<lparr>url = ce_ollama_url st @ ''/chat/completions'',
                        request_model = agent_model agent, prompt = encode p\<rparr>)"
  shows "(\<exists>s\<in>set fallbacks. generate_response_try st post r agent p = Inr s)
       \<or> (\<exists>e. is_Exception e \<and> generate_response_try st post r agent p = Inl e)"
proof (cases "post \<lparr>url = ce_ollama_url st @ ''/chat/completions'',
                    request_model = agent_model agent, prompt = encode p\<rparr>")
  case (Inl e)
  with assms show ?thesis by (simp add: generate_response_try_def)
next
  case (Inr response)
  with assms fallback_response_canned [of r agent] show ?thesis
    by (simp add: generate_response_try_def)
qed

text \<open>On an empty history nothing is rendered, the backend is called, and a failing
  call is answered with a fallback sentence.\<close>

lemma generate_response_empty_failed:
  assumes "\<And>req. failed (post req)"
  shows "\<exists>s\<in>set fallbacks. generate_response st post r agent [] = Inr s"
proof -
  let ?p = "build_agent_prompt agent []"
  have g: "generate_response st post r agent []
      = (case generate_response_try st post r agent ?p of
           Inl e \<Rightarrow> if is_Exception e then fallback_response r agent else Inl e
         | Inr t \<Rightarrow> Inr t)"
    by (simp add: generate_response_def slice_from_def Let_def)
  from generate_response_try_failed [where post = post and st = st and agent = agent and p = ?p and r = r, OF assms]
  show ?thesis
  proof
    assume "\<exists>s\<in>set fallbacks. generate_response_try st post r agent ?p = Inr s"
    then show ?thesis unfolding g by auto
  next
    assume "\<exists>e. is_Exception e \<and> generate_response_try st post r agent ?p = Inl e"
    then obtain e where "is_Exception e" "generate_response_try st post r agent ?p = Inl e"
      by blast
    with fallback_response_canned [of r agent] show ?thesis unfolding g by auto
  qed
qed

text \<open>On every other history the rendering of the first recent message raises
  \<open>TypeError\<close>, whatever the backend would do: the backend is not reached.\<close>

lemma render_history_raises:
  "msgs \<noteq> [] \<Longrightarrow> render_history st msgs context_str = Inl TypeError"
  by (cases msgs) (simp_all add: Agent_init_def)

lemma slice_from_nonempty: "xs \<noteq> [] \<Longrightarrow> slice_from (- 5) xs \<noteq> []"
  by (cases xs) (auto simp: slice_from_def Let_def max_def)

lemma generate_response_history_raises:
  assumes "history \<noteq> []"
  shows "generate_response st post r agent history = Inl TypeError"
proof -
  from assms have "slice_from (- 5) history \<noteq> []" by (rule slice_from_nonempty)
  then have "render_history st (slice_from (- 5) history) [] = Inl TypeError"
    by (rule render_history_raises)
  then show ?thesis by (simp add: generate_response_def Let_def)
qed

lemma generate_response_returns:
  "generate_response st post r agent history = Inr s \<Longrightarrow> history = []"
  using generate_response_history_raises [of history st post r agent] by auto

section \<open>The invariant of the ConversationEngine\<close>

lemma random_choice_Inr_mem: "random_choice r xs = Inr x \<Longrightarrow> x \<in> set xs"
  by (auto simp: random_choice_def split: if_splits)

lemma random_choice_Inl: "random_choice r xs = Inl x \<Longrightarrow> xs = []"
  by (auto simp: random_choice_def split: if_splits)

lemma available_agents_mem:
  "(k, a) \<in> set (available_agents st conversation) \<Longrightarrow>
     (k, a) \<in> set (agents st) \<and> Some (a_id a) \<noteq> last_speaker conversation"
  by (auto simp: available_agents_def)

lemma process_body_Next:
  assumes "process_body e cid st ex = Next st' ex'"
  shows "(st' = st \<and> ex' = ex)
       \<or> (\<exists>k a s. (k, a) \<in> set (agents st)
             \<and> Some (a_id a) \<noteq> last_speaker (conversation_of st cid)
             \<and> generate_response st (backend e) (rnd2 e) a (conversation_of st cid) = Inr s
             \<and> s \<noteq> []
             \<and> st' = appended_state st cid k a
                        (response_message e cid ex a s (conversation_of st cid))
             \<and> ex' = ex + 1)"
proof -
  let ?conv = "conversation_of st cid"
  let ?av = "available_agents st ?conv"
  from assms have ne: "?av \<noteq> []"
    by (auto simp: process_body_def Let_def split: if_splits)
  then obtain k a where ch: "random_choice (rnd e) ?av = Inr (k, a)"
    using random_choice_nonempty [of ?av "rnd e"] by auto
  then have mem: "(k, a) \<in> set ?av" by (rule random_choice_Inr_mem)
  from assms ne ch obtain s where
    g: "generate_response st (backend e) (rnd2 e) a ?conv = Inr s"
    by (cases "generate_response st (backend e) (rnd2 e) a ?conv")
       (auto simp: process_body_def Let_def)
  show ?thesis
  proof (cases "s = []")
    case True
    with assms ne ch g show ?thesis by (simp add: process_body_def Let_def)
  next
    case False
    with assms ne ch g have "st' = appended_state st cid k a (response_message e cid ex a s ?conv)"
      and "ex' = ex + 1"
      by (simp_all add: process_body_def Let_def appended_state_def)
    with available_agents_mem [OF mem] g False show ?thesis by blast
  qed
qed

lemma conversation_of_appended [simp]:
  "conversation_of (appended_state st cid k a m) cid = conversation_of st cid @ [m]"
  by (simp add: appended_state_def conversation_of_def)

lemma conversations_appended_other:
  "c \<noteq> cid \<Longrightarrow> conversations (appended_state st cid k a m) c = conversations st c"
  by (simp add: appended_state_def)

lemma conversations_appended_same:
  "conversations (appended_state st cid k a m) cid = Some (conversation_of st cid @ [m])"
  by (simp add: appended_state_def)

lemma agents_appended:
  "agents (appended_state st cid k a m) = AList.update k (remember a m) (agents st)"
  by (simp add: appended_state_def)

lemma a_id_remember [simp]: "a_id (remember a m) = a_id a"
  by (simp add: remember_def Let_def)

lemma list_all_update:
  "list_all P al \<Longrightarrow> P (k, v) \<Longrightarrow> list_all P (AList.update k v al)"
  by (induction al) auto

lemma keys_update_present:
  "(k, a) \<in> set al \<Longrightarrow> map fst (AList.update k v al) = map fst al"
  by (induction al) auto

lemma agents_wf_appended:
  assumes "agents_wf st" and "(k, a) \<in> set (agents st)"
  shows "agents_wf (appended_state st cid k a m)"
    and "map fst (agents (appended_state st cid k a m)) = map fst (agents st)"
proof -
  from assms have ka: "a_id a = k" by (auto simp: agents_wf_def list_all_iff)
  show keys: "map fst (agents (appended_state st cid k a m)) = map fst (agents st)"
    unfolding agents_appended using assms(2) by (rule keys_update_present)
  have "list_all (\<lambda>(k, a). a_id a = k) (AList.update k (remember a m) (agents st))"
    using assms(1) ka by (intro list_all_update) (simp_all add: agents_wf_def)
  with assms(1) keys show "agents_wf (appended_state st cid k a m)"
    by (simp add: agents_wf_def agents_appended)
qed

lemma no_consecutive_repeat_snoc:
  "no_consecutive_repeat (xs @ [y]) \<longleftrightarrow>
     no_consecutive_repeat xs \<and> (xs = [] \<or> last xs \<noteq> y)"
  by (induction xs rule: no_consecutive_repeat.induct) auto

lemma engine_inv_conversation_of:
  assumes "engine_inv st"
  shows "\<forall>m\<in>set (conversation_of st cid). agent_id m \<in> set (map fst (agents st))"
    and "no_consecutive_repeat (map agent_id (conversation_of st cid))"
proof -
  show "\<forall>m\<in>set (conversation_of st cid). agent_id m \<in> set (map fst (agents st))"
  proof (cases "conversations st cid")
    case None
    then show ?thesis by (simp add: conversation_of_def)
  next
    case (Some msgs)
    with assms have "\<forall>m\<in>set msgs. agent_id m \<in> set (map fst (agents st))"
      unfolding engine_inv_def by blast
    with Some show ?thesis by (simp add: conversation_of_def)
  qed
  show "no_consecutive_repeat (map agent_id (conversation_of st cid))"
  proof (cases "conversations st cid")
    case None
    then show ?thesis by (simp add: conversation_of_def)
  next
    case (Some msgs)
    with assms have "no_consecutive_repeat (map agent_id msgs)"
      unfolding engine_inv_def by blast
    with Some show ?thesis by (simp add: conversation_of_def)
  qed
qed

lemma engine_inv_appended:
  assumes inv: "engine_inv st" and mem: "(k, a) \<in> set (agents st)"
    and ne: "Some (a_id a) \<noteq> last_speaker (conversation_of st cid)"
    and m: "agent_id m = a_id a"
  shows "engine_inv (appended_state st cid k a m)"
proof -
  let ?st' = "appended_state st cid k a m"
  from inv have wf: "agents_wf st" by (simp add: engine_inv_def)
  from wf mem have ka: "a_id a = k" by (auto simp: agents_wf_def list_all_iff)
  note wf' = agents_wf_appended [OF wf mem, of cid m]
  have "\<forall>c msgs. conversations ?st' c = Some msgs \<longrightarrow>
        (\<forall>x\<in>set msgs. agent_id x \<in> set (map fst (agents ?st')))
        \<and> no_consecutive_repeat (map agent_id msgs)"
  proof (intro allI impI)
    fix c msgs assume c: "conversations ?st' c = Some msgs"
    show "(\<forall>x\<in>set msgs. agent_id x \<in> set (map fst (agents ?st')))
        \<and> no_consecutive_repeat (map agent_id msgs)"
    proof (cases "c = cid")
      case False
      with c have "conversations st c = Some msgs" by (simp add: conversations_appended_other)
      with inv show ?thesis unfolding wf'(2) by (simp add: engine_inv_def)
    next
      case True
      with c have msgs: "msgs = conversation_of st cid @ [m]"
        by (simp add: conversations_appended_same)
      from mem have kin: "k \<in> set (map fst (agents st))" by force
      have a1: "\<forall>x\<in>set msgs. agent_id x \<in> set (map fst (agents st))"
        using engine_inv_conversation_of(1) [OF inv, of cid] kin m ka
        by (auto simp: msgs)
      have "conversation_of st cid = [] \<or> last (map agent_id (conversation_of st cid)) \<noteq> agent_id m"
        using ne m by (auto simp: last_speaker_def last_map split: if_splits)
      then have a2: "no_consecutive_repeat (map agent_id msgs)"
        using engine_inv_conversation_of(2) [OF inv, of cid]
        by (auto simp: msgs no_consecutive_repeat_snoc)
      from a1 a2 show ?thesis unfolding wf'(2) by blast
    qed
  qed
  with wf'(1) show ?thesis by (simp add: engine_inv_def)
qed

lemma process_body_inv:
  assumes "engine_inv st" and "process_body e cid st ex = Next st' ex'"
  shows "engine_inv st'"
proof -
  from process_body_Next [OF assms(2)]
  show ?thesis
  proof
    assume "st' = st \<and> ex' = ex"
    with assms(1) show ?thesis by simp
  next
    assume "\<exists>k a s. (k, a) \<in> set (agents st)
             \<and> Some (a_id a) \<noteq> last_speaker (conversation_of st cid)
             \<and> generate_response st (backend e) (rnd2 e) a (conversation_of st cid) = Inr s
             \<and> s \<noteq> []
             \<and> st' = appended_state st cid k a
                        (response_message e cid ex a s (conversation_of st cid))
             \<and> ex' = ex + 1"
    then obtain k a s where mem: "(k, a) \<in> set (agents st)"
      and ne: "Some (a_id a) \<noteq> last_speaker (conversation_of st cid)"
      and st': "st' = appended_state st cid k a
                        (response_message e cid ex a s (conversation_of st cid))"
      by blast
    have "agent_id (response_message e cid ex a s (conversation_of st cid)) = a_id a"
      by (simp add: response_message_def)
    from engine_inv_appended [OF assms(1) mem ne this] st' show ?thesis by simp
  qed
qed

lemma process_loop_inv:
  "engine_inv st \<Longrightarrow> process_loop es cid mx st ex = Some (st', out) \<Longrightarrow> engine_inv st'"
proof (induction es arbitrary: st ex)
  case Nil
  then show ?case by (auto split: if_splits)
next
  case (Cons e es)
  show ?case
  proof (cases "ex < mx")
    case False
    with Cons.prems show ?thesis by simp
  next
    case True
    show ?thesis
    proof (cases "process_body e cid st ex")
      case Break
      with True Cons.prems show ?thesis by simp
    next
      case (Raise x)
      with True Cons.prems show ?thesis by (auto split: if_splits)
    next
      case (Next st1 ex1)
      with True Cons.prems have "process_loop es cid mx st1 ex1 = Some (st', out)" by simp
      moreover have "engine_inv st1" using Cons.prems(1) Next by (rule process_body_inv)
      ultimately show ?thesis by (rule Cons.IH [rotated])
    qed
  qed
qed

lemma keys_update: "fst ` set (AList.update k v al) = insert k (fst ` set al)"
  by (induction al) auto

lemma add_agent_inv: "engine_inv st \<Longrightarrow> engine_inv (add_agent st agent)"
proof -
  assume inv: "engine_inv st"
  then have wf: "agents_wf st" by (simp add: engine_inv_def)
  have "agents_wf (add_agent st agent)"
    using wf by (auto simp: agents_wf_def add_agent_def distinct_update intro: list_all_update)
  moreover have "set (map fst (agents (add_agent st agent)))
      = insert (a_id agent) (set (map fst (agents st)))"
    by (simp add: add_agent_def keys_update)
  moreover have "conversations (add_agent st agent) = conversations st"
    by (simp add: add_agent_def)
  ultimately show ?thesis using inv by (auto simp: engine_inv_def)
qed

lemma init_inv: "engine_inv (ConversationEngine_init u)"
  by (simp add: engine_inv_def ConversationEngine_init_def agents_wf_def)

lemma start_conversation_cases:
  "fst (start_conversation e st cid topic) = st
   \<or> fst (start_conversation e st cid topic) = st\<lparr>conversations := (conversations st)(cid \<mapsto> [])\<rparr>
   \<or> (\<exists>a m. a \<in> set (map snd (agents st)) \<and> agent_id m = a_id a
         \<and> fst (start_conversation e st cid topic)
             = st\<lparr>conversations := (conversations st)(cid \<mapsto> [m]),
                  message_queue := message_queue st @ [m]\<rparr>)"
proof (cases "cid \<in> dom (conversations st)")
  case True
  then show ?thesis by (simp add: start_conversation_def)
next
  case False
  let ?st1 = "st\<lparr>conversations := (conversations st)(cid \<mapsto> [])\<rparr>"
  let ?seed = "(case topic of
                    None \<Rightarrow> generate_conversation_seed (rnd e)
                  | Some topic \<Rightarrow> if topic \<noteq> [] then Inr topic
                                  else generate_conversation_seed (rnd e))"
  show ?thesis
  proof (cases ?seed)
    case (Inl x)
    with False show ?thesis by (simp add: start_conversation_def Let_def)
  next
    case (Inr seed_message)
    show ?thesis
    proof (cases "random_choice (rnd2 e) (map snd (agents st))")
      case (Inl x)
      with False Inr show ?thesis by (simp add: start_conversation_def Let_def)
    next
      case (Inr first_agent)
      then have mem: "first_agent \<in> set (map snd (agents st))" by (rule random_choice_Inr_mem)
      let ?m = "\<lparr>msg_id = ''msg_'' @ str_int (clock_ms e), msg_timestamp = now e,
                 agent_id = a_id first_agent, msg_content = seed_message,
                 response_to = None, conversation_id = cid, msg_interest_score = 0\<rparr>"
      have "fst (start_conversation e st cid topic)
             = st\<lparr>conversations := (conversations st)(cid \<mapsto> [?m]),
                  message_queue := message_queue st @ [?m]\<rparr>"
        using False \<open>?seed = Inr seed_message\<close> Inr
        by (simp add: start_conversation_def Let_def)
      moreover have "agent_id ?m = a_id first_agent" by simp
      ultimately show ?thesis using mem by blast
    qed
  qed
qed

lemma engine_inv_new_conversation:
  assumes inv: "engine_inv st"
    and msgs: "\<forall>m\<in>set msgs. agent_id m \<in> set (map fst (agents st))"
    and alt: "no_consecutive_repeat (map agent_id msgs)"
  shows "engine_inv (st\<lparr>conversations := (conversations st)(cid \<mapsto> msgs), message_queue := q\<rparr>)"
    and "engine_inv (st\<lparr>conversations := (conversations st)(cid \<mapsto> msgs)\<rparr>)"
  using assms unfolding engine_inv_def agents_wf_def by auto

lemma start_conversation_inv:
  assumes inv: "engine_inv st"
  shows "engine_inv (fst (start_conversation e st cid topic))"
proof -
  from inv have wf: "agents_wf st" by (simp add: engine_inv_def)
  from start_conversation_cases [of e st cid topic]
  consider "fst (start_conversation e st cid topic) = st"
    | "fst (start_conversation e st cid topic) = st\<lparr>conversations := (conversations st)(cid \<mapsto> [])\<rparr>"
    | a m where "a \<in> set (map snd (agents st))" "agent_id m = a_id a"
        "fst (start_conversation e st cid topic)
             = st\<lparr>conversations := (conversations st)(cid \<mapsto> [m]),
                  message_queue := message_queue st @ [m]\<rparr>"
    by blast
  then show ?thesis
  proof cases
    case 1
    with inv show ?thesis by simp
  next
    case 2
    show ?thesis unfolding 2 by (rule engine_inv_new_conversation(2) [OF inv]) simp_all
  next
    case 3
    from 3(1) obtain k where "(k, a) \<in> set (agents st)" by auto
    with wf have "a_id a \<in> set (map fst (agents st))"
      by (force simp: agents_wf_def list_all_iff)
    with 3(2) have "\<forall>x\<in>set [m]. agent_id x \<in> set (map fst (agents st))" by simp
    then show ?thesis unfolding 3(3)
      by (rule engine_inv_new_conversation(1) [OF inv]) simp
  qed
qed

lemma process_conversation_inv:
  assumes "engine_inv st" and "process_conversation es st cid mx = Some (st', out)"
  shows "engine_inv st'"
proof (cases "cid \<in> dom (conversations st)")
  case False
  with assms show ?thesis by (simp add: process_conversation_def)
next
  case True
  with assms(2) have "process_loop es cid mx st 0 = Some (st', out)"
    by (simp add: process_conversation_def)
  with assms(1) show ?thesis by (rule process_loop_inv)
qed

lemma reachable_inv: "reachable st \<Longrightarrow> engine_inv st"
proof (induction rule: reachable.induct)
  case (reach_init u)
  show ?case by (rule init_inv)
next
  case (reach_add st agent)
  from reach_add.IH show ?case by (rule add_agent_inv)
next
  case (reach_start st e cid topic)
  from reach_start.IH show ?case by (rule start_conversation_inv)
next
  case (reach_process st es cid max_exchanges st' out)
  from reach_process.IH reach_process.hyps(2) show ?case by (rule process_conversation_inv)
qed


lemma single_agent_available:
  assumes inv: "engine_inv st" and one: "map snd (agents st) = [a]"
    and ne: "conversation_of st cid \<noteq> []"
  shows "available_agents st (conversation_of st cid) = []"
proof -
  from one obtain k where ag: "agents st = [(k, a)]" by (cases "agents st") auto
  from inv have "agents_wf st" by (simp add: engine_inv_def)
  with ag have ka: "a_id a = k" by (simp add: agents_wf_def)
  from ne have "last (conversation_of st cid) \<in> set (conversation_of st cid)" by simp
  with engine_inv_conversation_of(1) [OF inv, of cid]
  have "agent_id (last (conversation_of st cid)) \<in> set (map fst (agents st))" by blast
  with ag have "agent_id (last (conversation_of st cid)) = k" by simp
  with ne ka have "last_speaker (conversation_of st cid) = Some (a_id a)"
    by (simp add: last_speaker_def)
  with ag show ?thesis by (simp add: available_agents_def)
qed

lemma process_loop_no_candidates:
  assumes "available_agents st (conversation_of st cid) = []"
  shows "process_loop es cid mx st ex = Some (st, Completed ex)"
proof (cases es)
  case Nil
  with assms show ?thesis by simp
next
  case (Cons e es')
  from assms have "process_body e cid st ex = Break"
    by (simp add: process_body_def Let_def)
  with Cons show ?thesis by simp
qed

text \<open>
  Claim C8.  In an engine with exactly one agent, \<open>process_conversation\<close> on a
  conversation that holds its seed message returns at once, for every exchange bound
  and every environment: it appends nothing, changes nothing in the state and completes
  with zero exchanges.
\<close>

theorem single_agent_no_exchange:
  assumes "reachable st" and "map snd (agents st) = [a]"
    and "conversations st cid = Some msgs" and "msgs \<noteq> []"
  shows "process_conversation es st cid max_exchanges = Some (st, Completed 0)"
proof -
  from assms(3,4) have ne: "conversation_of st cid \<noteq> []" by (simp add: conversation_of_def)
  have "available_agents st (conversation_of st cid) = []"
    using reachable_inv [OF assms(1)] assms(2) ne by (rule single_agent_available)
  then have "process_loop es cid max_exchanges st 0 = Some (st, Completed 0)"
    by (rule process_loop_no_candidates)
  with assms(3) show ?thesis by (auto simp: process_conversation_def)
qed

text \<open>No conversation ever holds more than one message: a response is appended only
  when \<open>generate_response\<close> returns, which it does on the empty history alone.\<close>

lemma process_body_short:
  assumes short: "\<forall>c. length (conversation_of st c) \<le> 1"
    and body: "process_body e cid st ex = Next st' ex'"
  shows "\<forall>c. length (conversation_of st' c) \<le> 1"
proof -
  from process_body_Next [OF body]
  show ?thesis
  proof
    assume "st' = st \<and> ex' = ex"
    with short show ?thesis by simp
  next
    assume "\<exists>k a s. (k, a) \<in> set (agents st)
             \<and> Some (a_id a) \<noteq> last_speaker (conversation_of st cid)
             \<and> generate_response st (backend e) (rnd2 e) a (conversation_of st cid) = Inr s
             \<and> s \<noteq> []
             \<and> st' = appended_state st cid k a
                        (response_message e cid ex a s (conversation_of st cid))
             \<and> ex' = ex + 1"
    then obtain k a s where
      g: "generate_response st (backend e) (rnd2 e) a (conversation_of st cid) = Inr s"
      and st': "st' = appended_state st cid k a
                        (response_message e cid ex a s (conversation_of st cid))"
      by blast
    from g have empty: "conversation_of st cid = []" by (rule generate_response_returns)
    show ?thesis
    proof
      fix c
      show "length (conversation_of st' c) \<le> 1"
      proof (cases "c = cid")
        case True
        then show ?thesis unfolding st' by (simp add: empty)
      next
        case False
        then have "conversation_of st' c = conversation_of st c"
          unfolding st' by (simp add: conversation_of_def conversations_appended_other)
        with short show ?thesis by simp
      qed
    qed
  qed
qed

lemma process_loop_short:
  "\<forall>c. length (conversation_of st c) \<le> 1 \<Longrightarrow> process_loop es cid mx st ex = Some (st', out)
   \<Longrightarrow> \<forall>c. length (conversation_of st' c) \<le> 1"
proof (induction es arbitrary: st ex)
  case Nil
  then show ?case by (auto split: if_splits)
next
  case (Cons e es)
  show ?case
  proof (cases "ex < mx")
    case False
    with Cons.prems show ?thesis by simp
  next
    case True
    show ?thesis
    proof (cases "process_body e cid st ex")
      case Break
      with True Cons.prems show ?thesis by simp
    next
      case (Raise x)
      with True Cons.prems show ?thesis by (auto split: if_splits)
    next
      case (Next st1 ex1)
      with True Cons.prems have "process_loop es cid mx st1 ex1 = Some (st', out)" by simp
      moreover have "\<forall>c. length (conversation_of st1 c) \<le> 1"
        using Cons.prems(1) Next by (rule process_body_short)
      ultimately show ?thesis by (rule Cons.IH [rotated])
    qed
  qed
qed

lemma conversation_at_most_one_message:
  "reachable st \<Longrightarrow> length (conversation_of st cid) \<le> 1"
proof (induction arbitrary: cid rule: reachable.induct)
  case (reach_init u)
  show ?case by (simp add: conversation_of_def ConversationEngine_init_def)
next
  case (reach_add st agent)
  have "conversation_of (add_agent st agent) cid = conversation_of st cid"
    by (simp add: conversation_of_def add_agent_def)
  with reach_add.IH [of cid] show ?case by simp
next
  case (reach_start st e c topic)
  from start_conversation_cases [of e st c topic]
  consider "fst (start_conversation e st c topic) = st"
    | "fst (start_conversation e st c topic) = st\<lparr>conversations := (conversations st)(c \<mapsto> [])\<rparr>"
    | m where "fst (start_conversation e st c topic)
             = st\<lparr>conversations := (conversations st)(c \<mapsto> [m]),
                  message_queue := message_queue st @ [m]\<rparr>"
    by blast
  then show ?case
  proof cases
    case 1
    with reach_start.IH [of cid] show ?thesis by simp
  next
    case 2
    with reach_start.IH [of cid] show ?thesis by (simp add: conversation_of_def)
  next
    case 3
    with reach_start.IH [of cid] show ?thesis by (simp add: conversation_of_def)
  qed
next
  case (reach_process st es c max_exchanges st' out)
  from reach_process.IH have short: "\<forall>c. length (conversation_of st c) \<le> 1" by blast
  show ?case
  proof (cases "c \<in> dom (conversations st)")
    case False
    with reach_process.hyps(2) have "st' = st" by (simp add: process_conversation_def)
    with short show ?thesis by simp
  next
    case True
    with reach_process.hyps(2) have "process_loop es c max_exchanges st 0 = Some (st', out)"
      by (simp add: process_conversation_def)
    with short have "\<forall>c. length (conversation_of st' c) \<le> 1" by (rule process_loop_short)
    then show ?thesis by blast
  qed
qed

section \<open>Sessions under backend failure\<close>

lemma two_agents_available:
  assumes wf: "agents_wf st" and two: "2 \<le> length (agents st)"
  shows "available_agents st conversation \<noteq> []"
proof -
  from two obtain p1 p2 rest where ag: "agents st = p1 # p2 # rest"
    by (cases "agents st"; cases "tl (agents st)") auto
  obtain k1 a1 where p1: "p1 = (k1, a1)" by (cases p1)
  obtain k2 a2 where p2: "p2 = (k2, a2)" by (cases p2)
  from wf ag p1 p2 have ids: "a_id a1 = k1" "a_id a2 = k2" "k1 \<noteq> k2"
    by (auto simp: agents_wf_def)
  show ?thesis
  proof (cases "Some (a_id a1) = last_speaker conversation")
    case False
    then have "(k1, a1) \<in> set (available_agents st conversation)"
      by (simp add: available_agents_def ag p1)
    then show ?thesis by auto
  next
    case True
    have "Some (a_id a2) \<noteq> last_speaker conversation"
    proof
      assume "Some (a_id a2) = last_speaker conversation"
      with True have "Some (a_id a2) = Some (a_id a1)" by (simp only:)
      with ids show False by simp
    qed
    then have "(k2, a2) \<in> set (available_agents st conversation)"
      by (simp add: available_agents_def ag p2)
    then show ?thesis by auto
  qed
qed

text \<open>With two or more agents and a conversation that holds a message, the body of the
  loop raises \<open>TypeError\<close>; the handler of \<open>process_conversation\<close> logs it and leaves
  the loop.\<close>

lemma process_body_history_raises:
  assumes wf: "agents_wf st" and two: "2 \<le> length (agents st)"
    and ne: "conversation_of st cid \<noteq> []"
  shows "process_body e cid st ex = Raise TypeError"
proof -
  let ?conv = "conversation_of st cid"
  let ?av = "available_agents st ?conv"
  have av: "?av \<noteq> []" using wf two by (rule two_agents_available)
  then obtain k a where ch: "random_choice (rnd e) ?av = Inr (k, a)"
    using random_choice_nonempty [of ?av "rnd e"] by auto
  have g: "generate_response st (backend e) (rnd2 e) a ?conv = Inl TypeError"
    using ne by (rule generate_response_history_raises)
  from av ch g show ?thesis by (simp add: process_body_def Let_def)
qed

lemma process_conversation_history_stops:
  assumes wf: "agents_wf st" and two: "2 \<le> length (agents st)"
    and known: "conversations st cid = Some msgs" and ne: "msgs \<noteq> []"
    and pos: "0 < max_exchanges"
  shows "process_conversation (e # es) st cid max_exchanges = Some (st, Completed 0)"
proof -
  from known ne have "conversation_of st cid \<noteq> []" by (simp add: conversation_of_def)
  with wf two have "process_body e cid st 0 = Raise TypeError"
    by (rule process_body_history_raises)
  with pos have "process_loop (e # es) cid max_exchanges st 0 = Some (st, Completed 0)"
    by simp
  with known show ?thesis by (auto simp: process_conversation_def)
qed

lemma process_thought_fields:
  "is_dreaming (process_thought st t) = is_dreaming st"
  "max_thoughts_per_session (process_thought st t) = max_thoughts_per_session st"
  "reasoning_engine (process_thought st t) = reasoning_engine st"
  by (simp_all add: process_thought_def Let_def)

lemma process_thought_generated:
  "\<exists>t'. thoughts_generated (process_thought st t) = thoughts_generated st @ [t']
        \<and> content t' = content t"
  by (simp add: process_thought_def Let_def)

lemma thought_fillers_not_blank:
  "thought_filler_status \<noteq> []" "thought_filler_except \<noteq> []"
  by (simp_all add: thought_filler_status_def thought_filler_except_def)

lemma dream_iterations_failed:
  "is_dreaming st
   \<Longrightarrow> \<forall>e\<in>set es. \<not> stop_signal e \<and> (\<forall>req. failed (backend e req))
   \<Longrightarrow> nat (max_thoughts_per_session st - c) \<le> length es
   \<Longrightarrow> \<exists>st' new. dream_iterations es st c = Some (st', None)
         \<and> thoughts_generated st' = thoughts_generated st @ new
         \<and> length new = nat (max_thoughts_per_session st - c)
         \<and> (\<forall>t\<in>set new. content t = thought_filler_status \<or> content t = thought_filler_except)"
proof (induction es arbitrary: st c)
  case Nil
  then have "\<not> c < max_thoughts_per_session st" by simp
  then have "dream_iterations [] st c = Some (st, None)"
    and "nat (max_thoughts_per_session st - c) = 0" by simp_all
  then show ?case by simp
next
  case (Cons e es)
  from Cons.prems(2) have ns: "\<not> stop_signal e" and fe: "\<And>req. failed (backend e req)"
    by simp_all
  show ?case
  proof (cases "c < max_thoughts_per_session st")
    case False
    with ns have "dream_iterations (e # es) st c = Some (st, None)"
      and "nat (max_thoughts_per_session st - c) = 0" by simp_all
    then show ?thesis by simp
  next
    case True
    let ?recent = "get_recent_thoughts (memory st) 10"
    from generate_thought_failed [where post = "backend e", OF fe]
    obtain s where g: "generate_thought (reasoning_engine st) (backend e) (rnd e) ?recent None = Inr s"
      and s: "s = thought_filler_status \<or> s = thought_filler_except" by blast
    from s have sne: "s \<noteq> []" using thought_fillers_not_blank by auto
    let ?t = "\<lparr>thought_id = ''thought_'' @ str_int (clock_ms e) @ ''_'' @ str_int c,
               timestamp = now e, content = s, thought_type = ''reasoning'',
               parent_id = (if ?recent \<noteq> [] then Some (thought_id (last ?recent)) else None),
               interest_score = 0, tags = []\<rparr>"
    let ?st1 = "process_thought st ?t"
    have step: "dream_iterations (e # es) st c = dream_iterations es ?st1 (c + 1)"
      using ns True Cons.prems(1) g sne by (simp add: Let_def)
    have d1: "is_dreaming ?st1" using Cons.prems(1) by (simp add: process_thought_fields)
    have m1: "max_thoughts_per_session ?st1 = max_thoughts_per_session st"
      by (simp add: process_thought_fields)
    from Cons.prems(2) have f1: "\<forall>e\<in>set es. \<not> stop_signal e \<and> (\<forall>req. failed (backend e req))"
      by simp
    from Cons.prems(3) True have n1: "nat (max_thoughts_per_session ?st1 - (c + 1)) \<le> length es"
      unfolding m1 by simp
    from Cons.IH [OF d1 f1 n1]
    obtain st' new where r: "dream_iterations es ?st1 (c + 1) = Some (st', None)"
      and tg: "thoughts_generated st' = thoughts_generated ?st1 @ new"
      and l: "length new = nat (max_thoughts_per_session st - (c + 1))"
      and f: "\<forall>t\<in>set new. content t = thought_filler_status \<or> content t = thought_filler_except"
      unfolding m1 by blast
    from process_thought_generated [of st ?t]
    obtain t' where t': "thoughts_generated ?st1 = thoughts_generated st @ [t']"
      and ct: "content t' = s" by auto
    have a: "dream_iterations (e # es) st c = Some (st', None)" using step r by simp
    have b: "thoughts_generated st' = thoughts_generated st @ (t' # new)" using tg t' by simp
    have c': "length (t' # new) = nat (max_thoughts_per_session st - c)" using l True by simp
    have d: "\<forall>t\<in>set (t' # new). content t = thought_filler_status \<or> content t = thought_filler_except"
      using f ct s by simp
    from a b c' d show ?thesis by blast
  qed
qed


text \<open>The single reasoning loop does degrade to filler content: when every call of the
  backend fails, the dream loop runs to \<open>max_thoughts_per_session\<close>, every thought
  after the seed a filler sentence.\<close>

lemma dream_loop_failed:
  assumes envs: "\<forall>e\<in>set es. \<not> stop_signal e \<and> (\<forall>req. failed (backend e req))"
    and dreaming: "is_dreaming d"
    and dlen: "nat (max_thoughts_per_session d - 1) \<le> length es"
  shows "\<exists>d' new. dream_loop e0 es d = Some (d', None)
              \<and> thoughts_generated d' = thoughts_generated d @ new
              \<and> length new = 1 + nat (max_thoughts_per_session d - 1)
              \<and> (\<forall>t\<in>set (tl new). content t = thought_filler_status
                                      \<or> content t = thought_filler_except)"
proof -
  let ?seed = "\<lparr>thought_id = ''thought_'' @ str_int (clock_ms e0), timestamp = now e0,
             content = seed_text e0, thought_type = ''seed'', parent_id = None,
             interest_score = 0, tags = []\<rparr>"
  let ?d1 = "process_thought d ?seed"
  have d1: "is_dreaming ?d1" using dreaming by (simp add: process_thought_fields)
  have m1: "max_thoughts_per_session ?d1 = max_thoughts_per_session d"
    by (simp add: process_thought_fields)
  from dlen have n1: "nat (max_thoughts_per_session ?d1 - 1) \<le> length es" unfolding m1 .
  from dream_iterations_failed [OF d1 envs n1]
  obtain d' new where run: "dream_iterations es ?d1 1 = Some (d', None)"
    and tg: "thoughts_generated d' = thoughts_generated ?d1 @ new"
    and l: "length new = nat (max_thoughts_per_session d - 1)"
    and f: "\<forall>t\<in>set new. content t = thought_filler_status \<or> content t = thought_filler_except"
    unfolding m1 by blast
  from process_thought_generated [of d ?seed]
  obtain t' where t': "thoughts_generated ?d1 = thoughts_generated d @ [t']" by blast
  have a: "dream_loop e0 es d = Some (d', None)" using run by (simp add: dream_loop_def Let_def)
  have b: "thoughts_generated d' = thoughts_generated d @ (t' # new)" using tg t' by simp
  have c: "length (t' # new) = 1 + nat (max_thoughts_per_session d - 1)" using l by simp
  have e: "\<forall>t\<in>set (tl (t' # new)). content t = thought_filler_status
                                      \<or> content t = thought_filler_except"
    using f by simp
  from a b c e show ?thesis by blast
qed

section \<open>The sample runs\<close>

lemma a_id_agent_a: "a_id agent_a = ''agent_1700000000000_0''"
  by (simp add: agent_a_def)

lemma a_id_agent_b: "a_id agent_b = ''agent_1700000000000_1''"
  by (simp add: agent_b_def)

lemma two_agent_engine_agents:
  "agents two_agent_engine
     = [(''agent_1700000000000_0'', agent_a), (''agent_1700000000000_1'', agent_b)]"
  by (simp add: two_agent_engine_def add_agent_def ConversationEngine_init_def
        a_id_agent_a a_id_agent_b)

lemma one_agent_engine_agents:
  "agents one_agent_engine = [(''agent_1700000000000_0'', agent_a)]"
  by (simp add: one_agent_engine_def add_agent_def ConversationEngine_init_def a_id_agent_a)

lemma sample_engine_conversations:
  "conversations two_agent_engine = Map.empty" "conversations one_agent_engine = Map.empty"
  by (simp_all add: two_agent_engine_def one_agent_engine_def add_agent_def
        ConversationEngine_init_def)

lemma reachable_sample_engines: "reachable two_agent_engine" "reachable one_agent_engine"
  unfolding two_agent_engine_def one_agent_engine_def
  by (intro reach_add reach_init)+

lemma start_conversation_fresh:
  assumes "conversations st cid = None" and "topic \<noteq> []" and "agents st \<noteq> []"
  shows "fst (start_conversation e st cid (Some topic))
       = st\<lparr>conversations :=
               (conversations st)(cid \<mapsto>
                 [\<lparr>msg_id = ''msg_'' @ str_int (clock_ms e), msg_timestamp = now e,
                   agent_id = a_id (map snd (agents st) ! (rnd2 e mod length (agents st))),
                   msg_content = topic, response_to = None, conversation_id = cid,
                   msg_interest_score = 0\<rparr>]),
             message_queue := message_queue st @
                 [\<lparr>msg_id = ''msg_'' @ str_int (clock_ms e), msg_timestamp = now e,
                   agent_id = a_id (map snd (agents st) ! (rnd2 e mod length (agents st))),
                   msg_content = topic, response_to = None, conversation_id = cid,
                   msg_interest_score = 0\<rparr>]\<rparr>"
  using assms by (simp add: start_conversation_def Let_def random_choice_def domIff)

lemma str_int_sample: "str_int 1700000000000 = ''1700000000000''"
  by (simp add: str_int_def str_nat.simps digit_char_def)

lemma started_pair_eq:
  "started_pair
     = two_agent_engine\<lparr>conversations :=
               (conversations two_agent_engine)(''conv_1'' \<mapsto>
                 [\<lparr>msg_id = ''msg_1700000000000'', msg_timestamp = 1700000000000000,
                   agent_id = ''agent_1700000000000_0'',
                   msg_content = ''ocean + time'', response_to = None,
                   conversation_id = ''conv_1'', msg_interest_score = 0\<rparr>]),
             message_queue := message_queue two_agent_engine @
                 [\<lparr>msg_id = ''msg_1700000000000'', msg_timestamp = 1700000000000000,
                   agent_id = ''agent_1700000000000_0'',
                   msg_content = ''ocean + time'', response_to = None,
                   conversation_id = ''conv_1'', msg_interest_score = 0\<rparr>]\<rparr>"
  unfolding started_pair_def
  by (subst start_conversation_fresh)
     (simp_all add: sample_engine_conversations two_agent_engine_agents timeout_env_def
        str_int_sample a_id_agent_a)

lemma started_single_eq:
  "started_single
     = one_agent_engine\<lparr>conversations :=
               (conversations one_agent_engine)(''conv_1'' \<mapsto>
                 [\<lparr>msg_id = ''msg_1700000000000'', msg_timestamp = 1700000000000000,
                   agent_id = ''agent_1700000000000_0'',
                   msg_content = ''ocean + time'', response_to = None,
                   conversation_id = ''conv_1'', msg_interest_score = 0\<rparr>]),
             message_queue := message_queue one_agent_engine @
                 [\<lparr>msg_id = ''msg_1700000000000'', msg_timestamp = 1700000000000000,
                   agent_id = ''agent_1700000000000_0'',
                   msg_content = ''ocean + time'', response_to = None,
                   conversation_id = ''conv_1'', msg_interest_score = 0\<rparr>]\<rparr>"
  unfolding started_single_def
  by (subst start_conversation_fresh)
     (simp_all add: sample_engine_conversations one_agent_engine_agents timeout_env_def
        str_int_sample a_id_agent_a)

lemma reachable_started: "reachable started_pair" "reachable started_single"
  unfolding started_pair_def started_single_def
  by (intro reach_start reachable_sample_engines)+

theorem single_agent_no_exchange_witness:
  "reachable started_single
   \<and> map snd (agents started_single) = [agent_a]
   \<and> map msg_content (conversation_of started_single ''conv_1'') = [''ocean + time'']
   \<and> process_conversation three_timeouts started_single ''conv_1'' 20
       = Some (started_single, Completed 0)"
proof -
  let ?m = "\<lparr>msg_id = ''msg_1700000000000'', msg_timestamp = 1700000000000000,
               agent_id = ''agent_1700000000000_0'',
               msg_content = ''ocean + time'', response_to = None,
               conversation_id = ''conv_1'', msg_interest_score = 0\<rparr>"
  have h1: "reachable started_single" by (rule reachable_started(2))
  have h2: "map snd (agents started_single) = [agent_a]"
    by (simp add: started_single_eq one_agent_engine_agents)
  have h3: "conversations started_single ''conv_1'' = Some [?m]"
    by (simp add: started_single_eq)
  have h4: "[?m] \<noteq> []" by simp
  have c: "map msg_content (conversation_of started_single ''conv_1'') = [''ocean + time'']"
    by (simp add: conversation_of_def h3)
  note r = single_agent_no_exchange [OF h1 h2 h3 h4, of three_timeouts 20]
  show ?thesis by (intro conjI) (rule h1, rule h2, rule c, rule r)
qed

lemma started_pair_facts:
  "agents_wf started_pair" "2 \<le> length (agents started_pair)"
  "''conv_1'' \<in> dom (conversations started_pair)"
  "length (conversation_of started_pair ''conv_1'') = 1"
proof -
  from reachable_inv [OF reachable_started(1)] show "agents_wf started_pair"
    by (simp add: engine_inv_def)
  show "2 \<le> length (agents started_pair)"
    by (simp add: started_pair_eq two_agent_engine_agents)
  show "''conv_1'' \<in> dom (conversations started_pair)"
    by (simp add: started_pair_eq)
  show "length (conversation_of started_pair ''conv_1'') = 1"
    by (simp add: started_pair_eq conversation_of_def)
qed

lemma three_timeouts_fail:
  "\<forall>e\<in>set three_timeouts. backend e = (\<lambda>req. Inl Timeout) \<and> \<not> stop_signal e"
  "\<forall>e\<in>set three_timeouts. \<forall>req. failed (backend e req)"
  "length three_timeouts = 3"
  by (simp_all add: three_timeouts_def timeout_env_def)

lemma three_exchange_run_result: "three_exchange_run = Some (started_pair, Completed 0)"
proof -
  let ?m = "\<lparr>msg_id = ''msg_1700000000000'', msg_timestamp = 1700000000000000,
               agent_id = ''agent_1700000000000_0'',
               msg_content = ''ocean + time'', response_to = None,
               conversation_id = ''conv_1'', msg_interest_score = 0\<rparr>"
  have known: "conversations started_pair ''conv_1'' = Some [?m]"
    by (simp add: started_pair_eq)
  have "process_conversation
          (timeout_env 1700000002000 # [timeout_env 1700000005000, timeout_env 1700000008000])
          started_pair ''conv_1'' 3 = Some (started_pair, Completed 0)"
    using started_pair_facts(1,2) known by (rule process_conversation_history_stops) simp_all
  then show ?thesis by (simp add: three_exchange_run_def three_timeouts_def)
qed


text \<open>
  Claim C4 at a conversation between two agents that holds its seed message, with a
  backend whose every call times out.  \<open>generate_response\<close> does not return a fallback
  sentence: while it renders the seed message it evaluates
  \<open>Agent("unknown", "Unknown", [], "", "")\<close>, which lacks \<open>conversation_style\<close> and
  raises \<open>TypeError\<close> ahead of the \<open>try\<close> block that holds the backend call and the
  fallback.  \<open>process_conversation\<close> catches the exception and leaves its loop, so the
  conversation ends with none of the three exchanges it was allowed and no filler is
  appended.  In the single reasoning loop the degradation does hold
  (\<open>generate_thought_failed\<close>, \<open>dream_loop_failed\<close>), and so it does in
  \<open>generate_response\<close> on the empty history (\<open>generate_response_empty_failed\<close>).
\<close>

theorem generate_response_raises_before_fallback:
  "backend (timeout_env 1700000002000) = (\<lambda>req. Inl Timeout)
   \<and> map msg_content (conversation_of started_pair ''conv_1'') = [''ocean + time'']
   \<and> generate_response started_pair (backend (timeout_env 1700000002000)) 0 agent_b
         (conversation_of started_pair ''conv_1'') = Inl TypeError
   \<and> three_exchange_run = Some (started_pair, Completed 0)"
proof (intro conjI)
  show "backend (timeout_env 1700000002000) = (\<lambda>req. Inl Timeout)"
    by (simp add: timeout_env_def)
  show c: "map msg_content (conversation_of started_pair ''conv_1'') = [''ocean + time'']"
    by (simp add: started_pair_eq conversation_of_def)
  from c have "conversation_of started_pair ''conv_1'' \<noteq> []" by auto
  then show "generate_response started_pair (backend (timeout_env 1700000002000)) 0 agent_b
         (conversation_of started_pair ''conv_1'') = Inl TypeError"
    by (rule generate_response_history_raises)
  show "three_exchange_run = Some (started_pair, Completed 0)"
    by (rule three_exchange_run_result)
qed

text \<open>
  Claim C9 at two conversations started during the same millisecond.  The seed
  message of each is given the id \<open>msg_1700000000000\<close>: the id is built from the clock
  reading alone, so the two messages of different conversations share it.
\<close>

theorem seed_ids_collide:
  "map msg_id (conversation_of same_instant_starts ''conv_a'') = [''msg_1700000000000'']
   \<and> map msg_id (conversation_of same_instant_starts ''conv_b'') = [''msg_1700000000000'']"
proof -
  let ?e = "timeout_env 1700000000000"
  let ?st1 = "fst (start_conversation ?e two_agent_engine ''conv_a'' (Some ''ocean + time''))"
  let ?ma = "\<lparr>msg_id = ''msg_'' @ str_int (clock_ms ?e), msg_timestamp = now ?e,
                agent_id = a_id (map snd (agents two_agent_engine)
                                   ! (rnd2 ?e mod length (agents two_agent_engine))),
                msg_content = ''ocean + time'', response_to = None, conversation_id = ''conv_a'',
                msg_interest_score = 0\<rparr>"
  have st1: "?st1 = two_agent_engine\<lparr>conversations :=
                 (conversations two_agent_engine)(''conv_a'' \<mapsto> [?ma]),
               message_queue := message_queue two_agent_engine @ [?ma]\<rparr>"
    by (rule start_conversation_fresh)
       (simp_all add: sample_engine_conversations two_agent_engine_agents)
  have fresh: "conversations ?st1 ''conv_b'' = None"
    unfolding st1 by (simp add: sample_engine_conversations)
  have ag: "agents ?st1 \<noteq> []" unfolding st1 by (simp add: two_agent_engine_agents)
  let ?mb = "\<lparr>msg_id = ''msg_'' @ str_int (clock_ms ?e), msg_timestamp = now ?e,
                agent_id = a_id (map snd (agents ?st1) ! (rnd2 ?e mod length (agents ?st1))),
                msg_content = ''ocean + time'', response_to = None, conversation_id = ''conv_b'',
                msg_interest_score = 0\<rparr>"
  have st2: "same_instant_starts = ?st1\<lparr>conversations :=
                 (conversations ?st1)(''conv_b'' \<mapsto> [?mb]),
               message_queue := message_queue ?st1 @ [?mb]\<rparr>"
    unfolding same_instant_starts_def
    by (rule start_conversation_fresh [OF fresh _ ag]) simp
  have ca: "conversations same_instant_starts ''conv_a'' = Some [?ma]"
    unfolding st2 by (simp add: st1)
  have cb: "conversations same_instant_starts ''conv_b'' = Some [?mb]"
    unfolding st2 by simp
  have "clock_ms ?e = 1700000000000" by (simp add: timeout_env_def)
  then have clock: "''msg_'' @ str_int (clock_ms ?e) = ''msg_1700000000000''"
    by (simp only: str_int_sample) simp
  have a: "map msg_id (conversation_of same_instant_starts ''conv_a'') = [''msg_1700000000000'']"
    unfolding conversation_of_def ca using clock by simp
  have b: "map msg_id (conversation_of same_instant_starts ''conv_b'') = [''msg_1700000000000'']"
    unfolding conversation_of_def cb using clock by simp
  from a b show ?thesis by (rule conjI)
qed

end
